theory Spec2Isabelle
  imports Main "HOL-Library.AList"
begin

section \<open>Basic blocks (basicblock.go, package bblock)\<close>

text \<open>The block kinds, in the order of the \<^verbatim>\<open>iota\<close> constants.\<close>

datatype BasicBlockType =
    FUNCTION_ENTRY | IF_CONDITION | ELSE_CONDITION | SWITCH_STATEMENT | CASE_CLAUSE
  | SELECT_STATEMENT | COMM_CLAUSE | RETURN_STMT | FOR_STATEMENT | RANGE_STATEMENT
  | GO_STATEMENT | CALL_EXPRESSION | ELSE_BODY | FOR_BODY | EMPTY | START | EXIT | UNKNOWN

text \<open>
  A \<^verbatim>\<open>*BasicBlock\<close> is a reference into the store of allocated blocks: the store is a
  list and a reference is an index into it. The nil pointer is \<open>None\<close> of
  \<open>ref option\<close>. The field \<^verbatim>\<open>successor map[int]*BasicBlock\<close> is an association
  list from end line to reference, updated with \<open>AList.update\<close> (one entry per key).
\<close>

type_synonym ref = nat

record BasicBlock =
  Number :: int
  Type :: BasicBlockType
  EndLine :: int
  LastSuccessor :: "ref option"
  successor :: "(int \<times> ref) list"
  FunctionName :: string

text \<open>
  The visitor. \<open>heap\<close> is the store of the blocks allocated so far (Go's heap, which the
  source's struct does not name); \<^verbatim>\<open>sourceFileSet\<close> is left out, since every position
  enters the model already resolved to its line.
\<close>

record visitor =
  heap :: "BasicBlock list"
  basicBlocks :: "(int \<times> ref) list"
  lastBlock :: "ref option"
  returnBlock :: "ref option"
  forBlock :: "ref option"
  forBodyBlock :: "ref option"
  switchBlock :: "ref option"

datatype error = ParseFailure | NilDereference

definition NewBasicBlock :: "int \<Rightarrow> BasicBlockType \<Rightarrow> int \<Rightarrow> BasicBlock" where
  "NewBasicBlock blockNumber blockType endLine =
     \<lparr>Number = blockNumber, Type = blockType, EndLine = endLine, LastSuccessor = None,
      successor = [], FunctionName = ''''\<rparr>"

text \<open>\<^verbatim>\<open>UpdateBasicBlock\<close>: copies every field of the new block, unless it is nil.\<close>

definition UpdateBasicBlock :: "BasicBlock \<Rightarrow> BasicBlock option \<Rightarrow> BasicBlock" where
  "UpdateBasicBlock basicBlock newBasicBlock =
     (case newBasicBlock of
        None \<Rightarrow> basicBlock
      | Some n \<Rightarrow> basicBlock\<lparr>Number := Number n, Type := Type n, EndLine := EndLine n,
                    LastSuccessor := LastSuccessor n, successor := successor n,
                    FunctionName := FunctionName n\<rparr>)"

text \<open>
  \<^verbatim>\<open>AddSuccessorBlock\<close>, for the one successor that every call site passes: the entry
  for the successor's end line is set to the successor, and \<^verbatim>\<open>LastSuccessor\<close> too.
  Both arguments are references that are not nil; a call site whose argument can be nil
  tests it first and panics there.
\<close>

definition AddSuccessorBlock :: "ref \<Rightarrow> ref \<Rightarrow> visitor \<Rightarrow> visitor" where
  "AddSuccessorBlock basicBlock successorBlock v =
     v\<lparr>heap := (heap v)[basicBlock := (heap v ! basicBlock)
          \<lparr>successor := AList.update (EndLine (heap v ! successorBlock)) successorBlock
                          (successor (heap v ! basicBlock)),
           LastSuccessor := Some successorBlock\<rparr>]\<rparr>"

text \<open>
  \<^verbatim>\<open>GetSuccessorBlocks\<close>: the keys of the successor map, sorted, and for each key the
  reference stored under it (a key of the map always has one).
\<close>

definition GetSuccessorBlocks :: "BasicBlock \<Rightarrow> ref list" where
  "GetSuccessorBlocks basicBlock =
     List.map_filter (map_of (successor basicBlock)) (sort (map fst (successor basicBlock)))"

text \<open>
  \<^verbatim>\<open>AddBasicBlock\<close>, called with the line of the position. The new block is allocated
  at the end of the store. If the registry has a block at this line, that block takes
  the new block's fields and is returned; otherwise the new block is registered.
\<close>

definition AddBasicBlock :: "BasicBlockType \<Rightarrow> int \<Rightarrow> visitor \<Rightarrow> ref \<times> visitor" where
  "AddBasicBlock blockType line v =
     (let basicBlock = length (heap v);
          v1 = v\<lparr>heap := heap v @ [NewBasicBlock (- 1) blockType line],
                 lastBlock := Some basicBlock\<rparr>
      in case map_of (basicBlocks v1) line of
           Some bb \<Rightarrow>
             (bb, v1\<lparr>heap := (heap v1)[bb := UpdateBasicBlock (heap v1 ! bb)
                                               (Some (heap v1 ! basicBlock))],
                     lastBlock := Some bb\<rparr>)
         | None \<Rightarrow>
             (basicBlock, v1\<lparr>basicBlocks := AList.update line basicBlock (basicBlocks v1)\<rparr>))"

text \<open>
  \<^verbatim>\<open>GetBasicBlocks\<close>: the keys of the registry, sorted; the block of each key, in that
  order, numbered with its index.
\<close>

fun numberBlocks ::
  "(int \<times> ref) list \<Rightarrow> int list \<Rightarrow> int \<Rightarrow> BasicBlock list \<Rightarrow> ref list \<times> BasicBlock list" where
  "numberBlocks m [] index h = ([], h)"
| "numberBlocks m (key # keys) index h =
     (case map_of m key of
        None \<Rightarrow> numberBlocks m keys (index + 1) h
      | Some bb \<Rightarrow>
          (let (bs, h') = numberBlocks m keys (index + 1) (h[bb := (h ! bb)\<lparr>Number := index\<rparr>])
           in (bb # bs, h')))"

definition GetBasicBlocks :: "visitor \<Rightarrow> ref list \<times> visitor" where
  "GetBasicBlocks v =
     (let keys = sort (map fst (basicBlocks v));
          (bs, h) = numberBlocks (basicBlocks v) keys 0 (heap v)
      in (bs, v\<lparr>heap := h\<rparr>))"

section \<open>The syntax tree\<close>

text \<open>
  The nodes of \<^verbatim>\<open>go/ast\<close> that \<^verbatim>\<open>Visit\<close> tells apart, and \<open>Other\<close> for every other
  node. The first two fields of each node are the lines of its \<^verbatim>\<open>Pos()\<close> and of its
  \<^verbatim>\<open>End()\<close>. The node lists are the children that \<^verbatim>\<open>ast.Walk\<close> or \<^verbatim>\<open>Visit\<close> reach, in
  the order of \<^verbatim>\<open>ast.Walk\<close>:
  \<^item> \<open>FuncDecl pos end name body\<close>: \<open>body\<close> is \<^verbatim>\<open>Body.List\<close>, \<open>None\<close> when the
    declaration has no body (\<^verbatim>\<open>Body == nil\<close>);
  \<^item> \<open>ReturnStmt pos end results\<close>; \<open>GoStmt pos end call\<close>;
  \<^item> \<open>IfStmt pos end cond body else\<close>: \<open>cond\<close> is \<^verbatim>\<open>Init\<close> (if any) and \<^verbatim>\<open>Cond\<close>,
    \<open>body\<close> is \<^verbatim>\<open>Body.List\<close>, \<open>else\<close> is \<open>None\<close> when \<^verbatim>\<open>Else == nil\<close>;
  \<^item> \<open>ForStmt\<close>, \<open>SwitchStmt\<close>, \<open>TypeSwitchStmt\<close>, \<open>SelectStmt\<close>: \<^verbatim>\<open>Body.List\<close>
    (their other children are never reached: \<^verbatim>\<open>Visit\<close> returns nil for them);
  \<^item> \<open>CaseClause pos end list body\<close>; \<open>CommClause pos end comm body\<close>;
  \<^item> \<open>Other pos end children\<close>.
\<close>

datatype node =
    FuncDecl int int string "node list option"
  | ReturnStmt int int "node list"
  | GoStmt int int "node list"
  | IfStmt int int "node list" "node list" "node option"
  | ForStmt int int "node list"
  | SwitchStmt int int "node list"
  | TypeSwitchStmt int int "node list"
  | SelectStmt int int "node list"
  | CaseClause int int "node list" "node list"
  | CommClause int int "node list" "node list"
  | Other int int "node list"

fun linePos :: "node \<Rightarrow> int" where
  "linePos (FuncDecl p e n b) = p"
| "linePos (ReturnStmt p e r) = p"
| "linePos (GoStmt p e c) = p"
| "linePos (IfStmt p e c b el) = p"
| "linePos (ForStmt p e b) = p"
| "linePos (SwitchStmt p e b) = p"
| "linePos (TypeSwitchStmt p e b) = p"
| "linePos (SelectStmt p e b) = p"
| "linePos (CaseClause p e l b) = p"
| "linePos (CommClause p e c b) = p"
| "linePos (Other p e c) = p"

fun lineEnd :: "node \<Rightarrow> int" where
  "lineEnd (FuncDecl p e n b) = e"
| "lineEnd (ReturnStmt p e r) = e"
| "lineEnd (GoStmt p e c) = e"
| "lineEnd (IfStmt p e c b el) = e"
| "lineEnd (ForStmt p e b) = e"
| "lineEnd (SwitchStmt p e b) = e"
| "lineEnd (TypeSwitchStmt p e b) = e"
| "lineEnd (SelectStmt p e b) = e"
| "lineEnd (CaseClause p e l b) = e"
| "lineEnd (CommClause p e c b) = e"
| "lineEnd (Other p e c) = e"

section \<open>The visitor's traversal\<close>

text \<open>\<^verbatim>\<open>GetBasicBlockTypeFromStmt\<close>: the first return, case clause or switch of the list.\<close>

fun GetBasicBlockTypeFromStmt :: "node list \<Rightarrow> BasicBlockType \<times> node option" where
  "GetBasicBlockTypeFromStmt [] = (UNKNOWN, None)"
| "GetBasicBlockTypeFromStmt (ReturnStmt p e r # stmtList) =
     (RETURN_STMT, Some (ReturnStmt p e r))"
| "GetBasicBlockTypeFromStmt (CaseClause p e l b # stmtList) =
     (CASE_CLAUSE, Some (CaseClause p e l b))"
| "GetBasicBlockTypeFromStmt (SwitchStmt p e b # stmtList) =
     (SWITCH_STATEMENT, Some (SwitchStmt p e b))"
| "GetBasicBlockTypeFromStmt (stmt # stmtList) = GetBasicBlockTypeFromStmt stmtList"

text \<open>
  The first loop of the \<^verbatim>\<open>FuncDecl\<close> case: every return statement directly in the body
  gets a \<^verbatim>\<open>RETURN_STMT\<close> block at the line of its end, which becomes the return block.
\<close>

fun scanReturns :: "node list \<Rightarrow> visitor \<Rightarrow> visitor" where
  "scanReturns [] v = v"
| "scanReturns (ReturnStmt p e r # list) v =
     scanReturns list (let (b, v1) = AddBasicBlock RETURN_STMT e v in v1\<lparr>returnBlock := Some b\<rparr>)"
| "scanReturns (s # list) v = scanReturns list v"

text \<open>
  The head of the \<^verbatim>\<open>SwitchStmt\<close>, \<^verbatim>\<open>TypeSwitchStmt\<close> and \<^verbatim>\<open>SelectStmt\<close> cases, which the
  three share: the header block becomes the switch block and is linked both ways with the
  for block, if there is one.
\<close>

definition switchHeader :: "BasicBlockType \<Rightarrow> int \<Rightarrow> visitor \<Rightarrow> ref \<times> visitor" where
  "switchHeader blockType line v =
     (let (sw, v1) = AddBasicBlock blockType line v;
          v2 = v1\<lparr>switchBlock := Some sw\<rparr>
      in case forBlock v2 of
           None \<Rightarrow> (sw, v2)
         | Some f \<Rightarrow> (sw, AddSuccessorBlock sw f (AddSuccessorBlock f sw v2)))"

text \<open>
  The \<^verbatim>\<open>CaseClause\<close> and \<^verbatim>\<open>CommClause\<close> cases are the same code up to the kind of the
  generic block. \<open>clauseBlock\<close> is the statement that creates the clause's block;
  \<open>clauseEntry\<close> is the code before the loop over the body (with the edges to the for
  block, from the switch block and to the return block); \<open>clauseExit\<close> is the code after
  the two back-references are restored.
\<close>

definition clauseBlock ::
  "BasicBlockType \<Rightarrow> int \<Rightarrow> node list \<Rightarrow> visitor \<Rightarrow> error + ref \<times> visitor" where
  "clauseBlock generic endLine body v =
     (case GetBasicBlockTypeFromStmt body of
        (basicBlockType, s) \<Rightarrow>
          if basicBlockType \<noteq> UNKNOWN then
            (case s of
               None \<Rightarrow> Inl NilDereference
             | Some stmt \<Rightarrow> Inr (AddBasicBlock basicBlockType (linePos stmt) v))
          else Inr (AddBasicBlock generic endLine v))"

definition clauseEntry ::
  "BasicBlockType \<Rightarrow> int \<Rightarrow> node list \<Rightarrow> visitor \<Rightarrow> error + ref \<times> visitor" where
  "clauseEntry generic endLine body v =
     (case clauseBlock generic endLine body v of
        Inl err \<Rightarrow> Inl err
      | Inr (caseClause, v1) \<Rightarrow>
          (let v2 = (case forBlock v1 of None \<Rightarrow> v1
                     | Some f \<Rightarrow> AddSuccessorBlock caseClause f v1);
               v3 = (case switchBlock v2 of None \<Rightarrow> v2
                     | Some sw \<Rightarrow> AddSuccessorBlock sw caseClause v2);
               v4 = (case returnBlock v3 of None \<Rightarrow> v3
                     | Some r \<Rightarrow> AddSuccessorBlock caseClause r v3)
           in Inr (caseClause, v4)))"

definition containsForStatement :: "ref \<Rightarrow> visitor \<Rightarrow> bool" where
  "containsForStatement caseClause v =
     list_ex (\<lambda>b. Type (heap v ! b) = FOR_STATEMENT) (GetSuccessorBlocks (heap v ! caseClause))"

definition clauseExit :: "ref \<Rightarrow> visitor \<Rightarrow> visitor" where
  "clauseExit caseClause v =
     (case returnBlock v of
        None \<Rightarrow> v
      | Some r \<Rightarrow>
          if Type (heap v ! caseClause) \<noteq> RETURN_STMT
             \<and> Type (heap v ! caseClause) \<noteq> SWITCH_STATEMENT then
            (if \<not> containsForStatement caseClause v then AddSuccessorBlock caseClause r v
             else v)
          else v)"

text \<open>
  \<^verbatim>\<open>Visit\<close>, with \<open>VisitList\<close> for its loops \<^verbatim>\<open>for _, s := range list { v.Visit(s) }\<close>.
  The result is the visitor after the call, or the panic. (The visitor that \<^verbatim>\<open>Visit\<close>
  returns, nil or itself, only matters to \<^verbatim>\<open>ast.Walk\<close>: see \<open>Walk\<close> below.)
\<close>

fun Visit :: "node \<Rightarrow> visitor \<Rightarrow> error + visitor"
  and VisitList :: "node list \<Rightarrow> visitor \<Rightarrow> error + visitor" where
  "Visit (FuncDecl p e name body) v =
     (let (funcDeclBlock, v1) = AddBasicBlock FUNCTION_ENTRY p v;
          v2 = v1\<lparr>heap := (heap v1)[funcDeclBlock :=
                  (heap v1 ! funcDeclBlock)\<lparr>FunctionName := name\<rparr>]\<rparr>
      in case body of
           None \<Rightarrow> Inl NilDereference
         | Some list \<Rightarrow>
             (let v3 = scanReturns list v2;
                  v4 = (if returnBlock v3 = None
                        then (let (b, v') = AddBasicBlock RETURN_STMT e v3
                              in v'\<lparr>returnBlock := Some b\<rparr>)
                        else v3)
              in case VisitList list v4 of
                   Inl err \<Rightarrow> Inl err
                 | Inr v5 \<Rightarrow> Inr (v5\<lparr>returnBlock := None\<rparr>)))"
| "Visit (ReturnStmt p e results) v =
     (let (b, v1) = AddBasicBlock RETURN_STMT p v;
          v2 = v1\<lparr>returnBlock := Some b\<rparr>
      in Inr (case switchBlock v2 of
                None \<Rightarrow> v2
              | Some sw \<Rightarrow> AddSuccessorBlock sw b v2))"
| "Visit (GoStmt p e call) v = Inr (snd (AddBasicBlock GO_STATEMENT p v))"
| "Visit (IfStmt p e cond body els) v =
     (let (ifBlock, v1) = AddBasicBlock IF_CONDITION p v
      in case els of
           None \<Rightarrow> Inl NilDereference
         | Some el \<Rightarrow>
             (let (elseConditionBlock, v2) = AddBasicBlock ELSE_CONDITION (linePos el) v1;
                  (elseBodyBlock, v3) = AddBasicBlock ELSE_BODY (lineEnd el) v2;
                  v4 = AddSuccessorBlock ifBlock elseBodyBlock v3
              in case VisitList body v4 of
                   Inl err \<Rightarrow> Inl err
                 | Inr v5 \<Rightarrow>
                     Inr (case returnBlock v5 of
                            None \<Rightarrow> v5
                          | Some r \<Rightarrow> AddSuccessorBlock elseBodyBlock r
                                        (AddSuccessorBlock elseConditionBlock r v5))))"
| "Visit (ForStmt p e body) v =
     (let (b, v1) = AddBasicBlock FOR_STATEMENT p v;
          v2 = v1\<lparr>forBlock := Some b\<rparr>;
          v3 = (case returnBlock v2 of None \<Rightarrow> v2 | Some r \<Rightarrow> AddSuccessorBlock b r v2);
          tmpReturnBlock = returnBlock v3;
          v4 = v3\<lparr>returnBlock := forBlock v3\<rparr>
      in case VisitList body v4 of
           Inl err \<Rightarrow> Inl err
         | Inr v5 \<Rightarrow>
             (let v6 = v5\<lparr>returnBlock := tmpReturnBlock\<rparr>
              in case lastBlock v6 of
                   None \<Rightarrow> Inl NilDereference
                 | Some lb \<Rightarrow>
                     (let v7 = (if Type (heap v6 ! lb) = FOR_STATEMENT
                                then snd (AddBasicBlock FOR_BODY e v6) else v6)
                      in case lastBlock v7 of
                           None \<Rightarrow> Inl NilDereference
                         | Some lb' \<Rightarrow>
                             if Type (heap v7 ! lb') \<noteq> RETURN_STMT then
                               (case forBlock v7 of
                                  None \<Rightarrow> Inl NilDereference
                                | Some f \<Rightarrow>
                                    Inr ((AddSuccessorBlock lb' f v7)\<lparr>forBlock := None\<rparr>))
                             else Inr (v7\<lparr>forBlock := None\<rparr>))))"
| "Visit (SwitchStmt p e body) v =
     (let (sw, v1) = switchHeader SWITCH_STATEMENT p v;
          v2 = (case returnBlock v1 of None \<Rightarrow> v1 | Some r \<Rightarrow> AddSuccessorBlock sw r v1)
      in VisitList body v2)"
| "Visit (TypeSwitchStmt p e body) v =
     VisitList body (snd (switchHeader SWITCH_STATEMENT p v))"
| "Visit (SelectStmt p e body) v =
     VisitList body (snd (switchHeader SELECT_STATEMENT p v))"
| "Visit (CaseClause p e list body) v =
     (case clauseEntry CASE_CLAUSE e body v of
        Inl err \<Rightarrow> Inl err
      | Inr (caseClause, v1) \<Rightarrow>
          (case VisitList body v1 of
             Inl err \<Rightarrow> Inl err
           | Inr v2 \<Rightarrow>
               Inr (clauseExit caseClause
                      (v2\<lparr>switchBlock := switchBlock v1, returnBlock := returnBlock v1\<rparr>))))"
| "Visit (CommClause p e comm body) v =
     (case clauseEntry COMM_CLAUSE e body v of
        Inl err \<Rightarrow> Inl err
      | Inr (caseClause, v1) \<Rightarrow>
          (case VisitList body v1 of
             Inl err \<Rightarrow> Inl err
           | Inr v2 \<Rightarrow>
               Inr (clauseExit caseClause
                      (v2\<lparr>switchBlock := switchBlock v1, returnBlock := returnBlock v1\<rparr>))))"
| "Visit (Other p e children) v = Inr v"
| "VisitList [] v = Inr v"
| "VisitList (s # list) v =
     (case Visit s v of
        Inl err \<Rightarrow> Inl err
      | Inr v1 \<Rightarrow> VisitList list v1)"

text \<open>
  \<^verbatim>\<open>ast.Walk\<close> with this visitor: it calls \<^verbatim>\<open>Visit\<close> on the node and, unless \<^verbatim>\<open>Visit\<close>
  returned nil (the \<^verbatim>\<open>FuncDecl\<close>, \<^verbatim>\<open>ForStmt\<close>, \<^verbatim>\<open>SwitchStmt\<close>, \<^verbatim>\<open>TypeSwitchStmt\<close> and
  \<^verbatim>\<open>SelectStmt\<close> cases), walks the children in order. Walking a \<^verbatim>\<open>BlockStmt\<close> visits
  it, which does nothing, and walks its list. The closing \<^verbatim>\<open>Visit(nil)\<close> does nothing.
\<close>

fun Walk :: "node \<Rightarrow> visitor \<Rightarrow> error + visitor"
  and walkList :: "node list \<Rightarrow> visitor \<Rightarrow> error + visitor" where
  "Walk (ReturnStmt p e results) v =
     (case Visit (ReturnStmt p e results) v of
        Inl err \<Rightarrow> Inl err
      | Inr v1 \<Rightarrow> walkList results v1)"
| "Walk (GoStmt p e call) v =
     (case Visit (GoStmt p e call) v of
        Inl err \<Rightarrow> Inl err
      | Inr v1 \<Rightarrow> walkList call v1)"
| "Walk (IfStmt p e cond body els) v =
     (case Visit (IfStmt p e cond body els) v of
        Inl err \<Rightarrow> Inl err
      | Inr v1 \<Rightarrow>
          (case walkList cond v1 of
             Inl err \<Rightarrow> Inl err
           | Inr v2 \<Rightarrow>
               (case walkList body v2 of
                  Inl err \<Rightarrow> Inl err
                | Inr v3 \<Rightarrow> (case els of None \<Rightarrow> Inr v3 | Some el \<Rightarrow> Walk el v3))))"
| "Walk (CaseClause p e list body) v =
     (case Visit (CaseClause p e list body) v of
        Inl err \<Rightarrow> Inl err
      | Inr v1 \<Rightarrow>
          (case walkList list v1 of
             Inl err \<Rightarrow> Inl err
           | Inr v2 \<Rightarrow> walkList body v2))"
| "Walk (CommClause p e comm body) v =
     (case Visit (CommClause p e comm body) v of
        Inl err \<Rightarrow> Inl err
      | Inr v1 \<Rightarrow>
          (case walkList comm v1 of
             Inl err \<Rightarrow> Inl err
           | Inr v2 \<Rightarrow> walkList body v2))"
| "Walk (Other p e children) v =
     (case Visit (Other p e children) v of
        Inl err \<Rightarrow> Inl err
      | Inr v1 \<Rightarrow> walkList children v1)"
| "Walk (FuncDecl p e name body) v = Visit (FuncDecl p e name body) v"
| "Walk (ForStmt p e body) v = Visit (ForStmt p e body) v"
| "Walk (SwitchStmt p e body) v = Visit (SwitchStmt p e body) v"
| "Walk (TypeSwitchStmt p e body) v = Visit (TypeSwitchStmt p e body) v"
| "Walk (SelectStmt p e body) v = Visit (SelectStmt p e body) v"
| "walkList [] v = Inr v"
| "walkList (n # list) v =
     (case Walk n v of
        Inl err \<Rightarrow> Inl err
      | Inr v1 \<Rightarrow> walkList list v1)"

section \<open>GetBasicBlocksFromSourceCode\<close>

definition newVisitor :: visitor where
  "newVisitor = \<lparr>heap = [], basicBlocks = [], lastBlock = None, returnBlock = None,
                 forBlock = None, forBodyBlock = None, switchBlock = None\<rparr>"

text \<open>The kinds that get no edge to the next block in the last loop.\<close>

definition sequential :: "BasicBlockType \<Rightarrow> bool" where
  "sequential t \<longleftrightarrow>
     t \<noteq> FOR_BODY \<and> t \<noteq> ELSE_CONDITION \<and> t \<noteq> ELSE_BODY \<and> t \<noteq> COMM_CLAUSE
     \<and> t \<noteq> CASE_CLAUSE \<and> t \<noteq> RETURN_STMT"

text \<open>One round of the last loop, for the block at \<open>index\<close>.\<close>

definition sequentialEdge :: "ref list \<Rightarrow> nat \<Rightarrow> visitor \<Rightarrow> visitor" where
  "sequentialEdge blocks index v =
     (if sequential (Type (heap v ! (blocks ! index))) then
        (if length blocks > index + 1
         then AddSuccessorBlock (blocks ! index) (blocks ! (index + 1)) v
         else v)
      else v)"

definition sequentialEdges :: "ref list \<Rightarrow> visitor \<Rightarrow> visitor" where
  "sequentialEdges blocks v =
     fold (sequentialEdge blocks) [0 ..< length blocks] v"

text \<open>
  \<^verbatim>\<open>GetBasicBlocksFromSourceCode\<close>, from the parser's result on: \<open>Inl\<close> is the parser's
  error, \<open>Inr\<close> the file node. The result is the slice of block references, with the
  store they point into.
\<close>

definition GetBasicBlocksFromSourceCode ::
  "unit + node \<Rightarrow> error + ref list \<times> BasicBlock list" where
  "GetBasicBlocksFromSourceCode parsed =
     (case parsed of
        Inl err \<Rightarrow> Inl ParseFailure
      | Inr file \<Rightarrow>
          (case Walk file newVisitor of
             Inl err \<Rightarrow> Inl err
           | Inr v \<Rightarrow>
               (let (blocks, v1) = GetBasicBlocks v;
                    v2 = sequentialEdges blocks v1
                in Inr (blocks, heap v2))))"

section \<open>Invariants of the visitor\<close>

text \<open>The references that the registry holds.\<close>

definition refs :: "visitor \<Rightarrow> ref set" where
  "refs v = snd ` set (basicBlocks v)"

text \<open>
  The registry as \<^verbatim>\<open>AddBasicBlock\<close> builds it: one entry per line, one line per block, and
  every entry points to an allocated block that ends on the entry's line.
\<close>

definition registry_ok :: "visitor \<Rightarrow> bool" where
  "registry_ok v \<longleftrightarrow>
     distinct (map fst (basicBlocks v)) \<and> distinct (map snd (basicBlocks v))
     \<and> (\<forall>(l, a) \<in> set (basicBlocks v). a < length (heap v) \<and> EndLine (heap v ! a) = l)"

text \<open>A visitor whose registry holds an \<^verbatim>\<open>IF_CONDITION\<close> block at line 3.\<close>

definition visitorIfAt3 :: visitor where
  "visitorIfAt3 =
     \<lparr>heap = [NewBasicBlock (- 1) IF_CONDITION 3], basicBlocks = [(3, 0)], lastBlock = Some 0,
      returnBlock = None, forBlock = None, forBodyBlock = None, switchBlock = None\<rparr>"

text \<open>
  The references in use stay inside the registry: the successors of every registered
  block, and the visitor's own references, are registered blocks.
\<close>

definition closed :: "visitor \<Rightarrow> bool" where
  "closed v \<longleftrightarrow>
     (\<forall>a \<in> refs v. \<forall>(k, s) \<in> set (successor (heap v ! a)). s \<in> refs v)
     \<and> set_option (lastBlock v) \<subseteq> refs v \<and> set_option (returnBlock v) \<subseteq> refs v
     \<and> set_option (forBlock v) \<subseteq> refs v \<and> set_option (switchBlock v) \<subseteq> refs v"

definition sound :: "visitor \<Rightarrow> bool" where
  "sound v \<longleftrightarrow> registry_ok v \<and> closed v"

definition extends :: "visitor \<Rightarrow> visitor \<Rightarrow> bool" where
  "extends v v' \<longleftrightarrow> sound v' \<and> refs v \<subseteq> refs v'"

text \<open>
  A visitor after two calls of \<^verbatim>\<open>AddBasicBlock\<close>, for a return statement at line 5 and
  then a go statement at line 2.
\<close>

definition visitorTwoBlocks :: visitor where
  "visitorTwoBlocks =
     \<lparr>heap = [NewBasicBlock (- 1) RETURN_STMT 5, NewBasicBlock (- 1) GO_STATEMENT 2],
      basicBlocks = [(5, 0), (2, 1)], lastBlock = Some 1,
      returnBlock = None, forBlock = None, forBodyBlock = None, switchBlock = None\<rparr>"

section \<open>The specification's words\<close>


fun subnodes :: "node \<Rightarrow> node list" and subnodesList :: "node list \<Rightarrow> node list" where
  "subnodes (FuncDecl p e name body) =
     FuncDecl p e name body # (case body of None \<Rightarrow> [] | Some list \<Rightarrow> subnodesList list)"
| "subnodes (ReturnStmt p e results) = ReturnStmt p e results # subnodesList results"
| "subnodes (GoStmt p e call) = GoStmt p e call # subnodesList call"
| "subnodes (IfStmt p e cond body els) =
     IfStmt p e cond body els # subnodesList cond @ subnodesList body
       @ (case els of None \<Rightarrow> [] | Some el \<Rightarrow> subnodes el)"
| "subnodes (ForStmt p e body) = ForStmt p e body # subnodesList body"
| "subnodes (SwitchStmt p e body) = SwitchStmt p e body # subnodesList body"
| "subnodes (TypeSwitchStmt p e body) = TypeSwitchStmt p e body # subnodesList body"
| "subnodes (SelectStmt p e body) = SelectStmt p e body # subnodesList body"
| "subnodes (CaseClause p e list body) =
     CaseClause p e list body # subnodesList list @ subnodesList body"
| "subnodes (CommClause p e comm body) =
     CommClause p e comm body # subnodesList comm @ subnodesList body"
| "subnodes (Other p e children) = Other p e children # subnodesList children"
| "subnodesList [] = []"
| "subnodesList (n # ns) = subnodes n @ subnodesList ns"


text \<open>
  A tree without any node that \<^verbatim>\<open>Visit\<close> handles: \<open>Other\<close> nodes only. \<open>hasFuncDecl\<close>
  looks for a function declaration anywhere in a tree.
\<close>

fun plain :: "node \<Rightarrow> bool" and plainList :: "node list \<Rightarrow> bool" where
  "plain (Other p e children) = plainList children"
| "plain (FuncDecl p e name body) = False"
| "plain (ReturnStmt p e results) = False"
| "plain (GoStmt p e call) = False"
| "plain (IfStmt p e cond body els) = False"
| "plain (ForStmt p e body) = False"
| "plain (SwitchStmt p e body) = False"
| "plain (TypeSwitchStmt p e body) = False"
| "plain (SelectStmt p e body) = False"
| "plain (CaseClause p e list body) = False"
| "plain (CommClause p e comm body) = False"
| "plainList [] = True"
| "plainList (n # ns) = (plain n \<and> plainList ns)"

fun hasFuncDecl :: "node \<Rightarrow> bool" and hasFuncDeclList :: "node list \<Rightarrow> bool" where
  "hasFuncDecl (FuncDecl p e name body) = True"
| "hasFuncDecl (ReturnStmt p e results) = hasFuncDeclList results"
| "hasFuncDecl (GoStmt p e call) = hasFuncDeclList call"
| "hasFuncDecl (IfStmt p e cond body els) =
     (hasFuncDeclList cond \<or> hasFuncDeclList body
      \<or> (case els of None \<Rightarrow> False | Some el \<Rightarrow> hasFuncDecl el))"
| "hasFuncDecl (ForStmt p e body) = hasFuncDeclList body"
| "hasFuncDecl (SwitchStmt p e body) = hasFuncDeclList body"
| "hasFuncDecl (TypeSwitchStmt p e body) = hasFuncDeclList body"
| "hasFuncDecl (SelectStmt p e body) = hasFuncDeclList body"
| "hasFuncDecl (CaseClause p e list body) = (hasFuncDeclList list \<or> hasFuncDeclList body)"
| "hasFuncDecl (CommClause p e comm body) = (hasFuncDeclList comm \<or> hasFuncDeclList body)"
| "hasFuncDecl (Other p e children) = hasFuncDeclList children"
| "hasFuncDeclList [] = False"
| "hasFuncDeclList (n # ns) = (hasFuncDecl n \<or> hasFuncDeclList ns)"

text \<open>
  The file \<^verbatim>\<open>package p / var f = func() int { / return 1 / }\<close> (lines 1 to 4): the file
  node with the package name and one \<^verbatim>\<open>GenDecl\<close>, whose \<^verbatim>\<open>ValueSpec\<close> holds the name
  \<^verbatim>\<open>f\<close> and a \<^verbatim>\<open>FuncLit\<close> with its type and its body, a \<^verbatim>\<open>BlockStmt\<close> with one return
  statement.
\<close>

definition fileVarFuncLit :: node where
  "fileVarFuncLit =
     Other 1 4
       [Other 1 1 [],
        Other 2 4
          [Other 2 4
             [Other 2 2 [],
              Other 2 4
                [Other 2 2 [Other 2 2 [], Other 2 2 [Other 2 2 [Other 2 2 []]]],
                 Other 2 4 [ReturnStmt 3 3 [Other 3 3 []]]]]]]"

text \<open>
  The file \<^verbatim>\<open>package p / import "fmt" / type T struct{} / var x = 1\<close> (lines 1 to 4).
\<close>

definition fileDeclsOnly :: node where
  "fileDeclsOnly =
     Other 1 4
       [Other 1 1 [],
        Other 2 2 [Other 2 2 [Other 2 2 []]],
        Other 3 3 [Other 3 3 [Other 3 3 [], Other 3 3 [Other 3 3 []]]],
        Other 4 4 [Other 4 4 [Other 4 4 [], Other 4 4 []]]]"

text \<open>
  A visitor inside a function: the \<^verbatim>\<open>FUNCTION_ENTRY\<close> block at line 2 and the function's
  \<^verbatim>\<open>RETURN_STMT\<close> block at line 9, which is the return block.
\<close>

definition visitorInFunc :: visitor where
  "visitorInFunc =
     \<lparr>heap = [(NewBasicBlock (- 1) FUNCTION_ENTRY 2)\<lparr>FunctionName := ''f''\<rparr>,
              NewBasicBlock (- 1) RETURN_STMT 9],
      basicBlocks = [(2, 0), (9, 1)], lastBlock = Some 1,
      returnBlock = Some 1, forBlock = None, forBodyBlock = None, switchBlock = None\<rparr>"

text \<open>A case clause or a communication clause.\<close>

fun isClause :: "node \<Rightarrow> bool" where
  "isClause (CaseClause p e l b) = True"
| "isClause (CommClause p e c b) = True"
| "isClause n = False"

section \<open>Example files\<close>

text \<open>
  The file \<^verbatim>\<open>package p / func f() { / go g() / return / }\<close> (lines 1 to 5, split at the
  slashes), the visitor at the end of the walk over it, and the visitor after
  \<^verbatim>\<open>GetBasicBlocks\<close>. The fourth block of the store is the one that \<^verbatim>\<open>AddBasicBlock\<close>
  allocated for the return statement and dropped, line 4 having a block already.
\<close>

definition fileGoReturn :: node where
  "fileGoReturn =
     Other 1 5 [Other 1 1 [],
       FuncDecl 2 5 ''f'' (Some [GoStmt 3 3 [Other 3 3 []], ReturnStmt 4 4 []])]"

definition visitorGoReturn :: visitor where
  "visitorGoReturn =
     \<lparr>heap = [\<lparr>Number = - 1, Type = FUNCTION_ENTRY, EndLine = 2, LastSuccessor = None,
                successor = [], FunctionName = ''f''\<rparr>,
              \<lparr>Number = - 1, Type = RETURN_STMT, EndLine = 4, LastSuccessor = None,
                successor = [], FunctionName = ''''\<rparr>,
              \<lparr>Number = - 1, Type = GO_STATEMENT, EndLine = 3, LastSuccessor = None,
                successor = [], FunctionName = ''''\<rparr>,
              \<lparr>Number = - 1, Type = RETURN_STMT, EndLine = 4, LastSuccessor = None,
                successor = [], FunctionName = ''''\<rparr>],
      basicBlocks = [(2, 0), (4, 1), (3, 2)], lastBlock = Some 1, returnBlock = None,
      forBlock = None, forBodyBlock = None, switchBlock = None\<rparr>"

definition visitorGoReturnNumbered :: visitor where
  "visitorGoReturnNumbered =
     \<lparr>heap = [\<lparr>Number = 0, Type = FUNCTION_ENTRY, EndLine = 2, LastSuccessor = None,
                successor = [], FunctionName = ''f''\<rparr>,
              \<lparr>Number = 2, Type = RETURN_STMT, EndLine = 4, LastSuccessor = None,
                successor = [], FunctionName = ''''\<rparr>,
              \<lparr>Number = 1, Type = GO_STATEMENT, EndLine = 3, LastSuccessor = None,
                successor = [], FunctionName = ''''\<rparr>,
              \<lparr>Number = - 1, Type = RETURN_STMT, EndLine = 4, LastSuccessor = None,
                successor = [], FunctionName = ''''\<rparr>],
      basicBlocks = [(2, 0), (4, 1), (3, 2)], lastBlock = Some 1, returnBlock = None,
      forBlock = None, forBodyBlock = None, switchBlock = None\<rparr>"

text \<open>
  The file \<^verbatim>\<open>package p / func f() { / if c { go g() } else { } / go h() / }\<close> (lines 1
  to 5), whose if statement is on line 3 with its body and its else block; and the same
  file with the go statement alone on line 3,
  \<^verbatim>\<open>package p / func f() { / go g() / go h() / }\<close>.
\<close>

definition fileIfGo :: node where
  "fileIfGo =
     Other 1 5 [Other 1 1 [],
       FuncDecl 2 5 ''f''
         (Some [IfStmt 3 3 [Other 3 3 []] [GoStmt 3 3 [Other 3 3 []]] (Some (Other 3 3 [])),
                GoStmt 4 4 [Other 4 4 []]])]"

definition fileGoGo :: node where
  "fileGoGo =
     Other 1 5 [Other 1 1 [],
       FuncDecl 2 5 ''f'' (Some [GoStmt 3 3 [Other 3 3 []], GoStmt 4 4 [Other 4 4 []]])]"



text \<open>
  The file
  \<^verbatim>\<open>package p / func f() { / switch { / case true: / } / } / func g() int { / return 1 / }\<close>
  (lines 1 to 9): a function with a switch statement, followed by a function with a
  return statement.
\<close>

definition fileSwitchThenReturn :: node where
  "fileSwitchThenReturn =
     Other 1 9 [Other 1 1 [],
       FuncDecl 2 6 ''f'' (Some [SwitchStmt 3 5 [CaseClause 4 4 [Other 4 4 []] []]]),
       FuncDecl 7 9 ''g'' (Some [ReturnStmt 8 8 [Other 8 8 []]])]"

section \<open>The cases of Visit, cut at their loop over the body\<close>

text \<open>
  Each case of \<^verbatim>\<open>Visit\<close> that walks a body is the code before the loop, the loop, and
  the code after it. The definitions below name these pieces, only for the proofs: the
  lemmas \<open>Visit_FuncDecl\<close> to \<open>Visit_SwitchStmt\<close> show that they are the text of
  \<open>Visit\<close>.
\<close>

definition funcEntry :: "int \<Rightarrow> int \<Rightarrow> string \<Rightarrow> node list \<Rightarrow> visitor \<Rightarrow> visitor" where
  "funcEntry p e name list v =
     (let (funcDeclBlock, v1) = AddBasicBlock FUNCTION_ENTRY p v;
          v2 = v1\<lparr>heap := (heap v1)[funcDeclBlock :=
                  (heap v1 ! funcDeclBlock)\<lparr>FunctionName := name\<rparr>]\<rparr>;
          v3 = scanReturns list v2
      in if returnBlock v3 = None
         then (let (b, v') = AddBasicBlock RETURN_STMT e v3 in v'\<lparr>returnBlock := Some b\<rparr>)
         else v3)"

definition ifEntry :: "int \<Rightarrow> node \<Rightarrow> visitor \<Rightarrow> ref \<times> ref \<times> ref \<times> visitor" where
  "ifEntry p el v =
     (let (ifBlock, v1) = AddBasicBlock IF_CONDITION p v;
          (elseConditionBlock, v2) = AddBasicBlock ELSE_CONDITION (linePos el) v1;
          (elseBodyBlock, v3) = AddBasicBlock ELSE_BODY (lineEnd el) v2
      in (ifBlock, elseConditionBlock, elseBodyBlock,
          AddSuccessorBlock ifBlock elseBodyBlock v3))"

definition ifExit :: "ref \<Rightarrow> ref \<Rightarrow> visitor \<Rightarrow> visitor" where
  "ifExit elseConditionBlock elseBodyBlock v =
     (case returnBlock v of
        None \<Rightarrow> v
      | Some r \<Rightarrow> AddSuccessorBlock elseBodyBlock r
                    (AddSuccessorBlock elseConditionBlock r v))"

definition forEntry :: "int \<Rightarrow> visitor \<Rightarrow> ref \<times> ref option \<times> visitor" where
  "forEntry p v =
     (let (b, v1) = AddBasicBlock FOR_STATEMENT p v;
          v2 = v1\<lparr>forBlock := Some b\<rparr>;
          v3 = (case returnBlock v2 of None \<Rightarrow> v2 | Some r \<Rightarrow> AddSuccessorBlock b r v2)
      in (b, returnBlock v3, v3\<lparr>returnBlock := forBlock v3\<rparr>))"

definition forExit :: "int \<Rightarrow> ref option \<Rightarrow> visitor \<Rightarrow> error + visitor" where
  "forExit e tmpReturnBlock v =
     (let v6 = v\<lparr>returnBlock := tmpReturnBlock\<rparr>
      in case lastBlock v6 of
           None \<Rightarrow> Inl NilDereference
         | Some lb \<Rightarrow>
             (let v7 = (if Type (heap v6 ! lb) = FOR_STATEMENT
                        then snd (AddBasicBlock FOR_BODY e v6) else v6)
              in case lastBlock v7 of
                   None \<Rightarrow> Inl NilDereference
                 | Some lb' \<Rightarrow>
                     if Type (heap v7 ! lb') \<noteq> RETURN_STMT then
                       (case forBlock v7 of
                          None \<Rightarrow> Inl NilDereference
                        | Some f \<Rightarrow> Inr ((AddSuccessorBlock lb' f v7)\<lparr>forBlock := None\<rparr>))
                     else Inr (v7\<lparr>forBlock := None\<rparr>)))"

definition switchEntry :: "int \<Rightarrow> visitor \<Rightarrow> ref \<times> visitor" where
  "switchEntry p v =
     (let (sw, v1) = switchHeader SWITCH_STATEMENT p v
      in (sw, case returnBlock v1 of None \<Rightarrow> v1 | Some r \<Rightarrow> AddSuccessorBlock sw r v1))"

section \<open>The registry: AddBasicBlock\<close>

lemmas run_defs =
  GetBasicBlocksFromSourceCode_def newVisitor_def AddBasicBlock_def NewBasicBlock_def
  UpdateBasicBlock_def AddSuccessorBlock_def GetBasicBlocks_def sequentialEdges_def
  sequentialEdge_def sequential_def Let_def switchHeader_def clauseEntry_def clauseBlock_def
  clauseExit_def containsForStatement_def GetSuccessorBlocks_def

lemma UpdateBasicBlock_Some: "UpdateBasicBlock b (Some n) = n"
  by (cases b, cases n) (simp add: UpdateBasicBlock_def)

lemma AList_update_absent: "map_of al k = None \<Longrightarrow> AList.update k x al = al @ [(k, x)]"
  by (induction al) (auto split: if_splits)

lemma AddBasicBlock_existing:
  "map_of (basicBlocks v) line = Some bb \<Longrightarrow> bb < length (heap v) \<Longrightarrow>
   AddBasicBlock t line v =
     (bb, v\<lparr>heap := (heap v)[bb := NewBasicBlock (- 1) t line] @ [NewBasicBlock (- 1) t line],
            lastBlock := Some bb\<rparr>)"
  by (simp add: AddBasicBlock_def Let_def UpdateBasicBlock_Some nth_append list_update_append)

lemma AddBasicBlock_fresh:
  "map_of (basicBlocks v) line = None \<Longrightarrow>
   AddBasicBlock t line v =
     (length (heap v),
      v\<lparr>heap := heap v @ [NewBasicBlock (- 1) t line],
        basicBlocks := basicBlocks v @ [(line, length (heap v))],
        lastBlock := Some (length (heap v))\<rparr>)"
  by (simp add: AddBasicBlock_def Let_def AList_update_absent)

text \<open>
  C6, as stated: two statements that end on one line do not give a block that reflects
  only the statement visited later. In \<open>fileIfGo\<close> the if statement and the go statement
  in its body end on line 3. The go statement is visited later, and the block of line 3
  (reference 2) has its kind, \<^verbatim>\<open>GO_STATEMENT\<close>; but the if statement, which holds the
  reference of the same block for its else blocks, adds the edge to the return block (line
  5, reference 1) after its body is visited, so the block has the successors of lines 5
  and 4. In \<open>fileGoGo\<close>, where line 3 holds the go statement alone, the block of line 3
  has the successor of line 4 only.
\<close>

theorem same_line_statements_counterexample:
  "GetBasicBlocksFromSourceCode (Inr fileIfGo)
   = Inr ([0, 2, 6, 1],
      [\<lparr>Number = 0, Type = FUNCTION_ENTRY, EndLine = 2,
          LastSuccessor = Some 2, successor = [(3, 2)], FunctionName = ''f''\<rparr>,
       \<lparr>Number = 3, Type = RETURN_STMT, EndLine = 5, LastSuccessor = None,
          successor = [], FunctionName = []\<rparr>,
       \<lparr>Number = 1, Type = GO_STATEMENT, EndLine = 3,
          LastSuccessor = Some 6, successor = [(5, 1), (4, 6)], FunctionName = []\<rparr>,
       \<lparr>Number = - 1, Type = ELSE_CONDITION, EndLine = 3,
          LastSuccessor = None, successor = [], FunctionName = []\<rparr>,
       \<lparr>Number = - 1, Type = ELSE_BODY, EndLine = 3, LastSuccessor = None,
          successor = [], FunctionName = []\<rparr>,
       \<lparr>Number = - 1, Type = GO_STATEMENT, EndLine = 3,
          LastSuccessor = None, successor = [], FunctionName = []\<rparr>,
       \<lparr>Number = 2, Type = GO_STATEMENT, EndLine = 4,
          LastSuccessor = Some 1, successor = [(5, 1)], FunctionName = []\<rparr>])
   \<and> GetBasicBlocksFromSourceCode (Inr fileGoGo)
   = Inr ([0, 2, 3, 1],
      [\<lparr>Number = 0, Type = FUNCTION_ENTRY, EndLine = 2,
          LastSuccessor = Some 2, successor = [(3, 2)], FunctionName = ''f''\<rparr>,
       \<lparr>Number = 3, Type = RETURN_STMT, EndLine = 5, LastSuccessor = None,
          successor = [], FunctionName = []\<rparr>,
       \<lparr>Number = 1, Type = GO_STATEMENT, EndLine = 3,
          LastSuccessor = Some 3, successor = [(4, 3)], FunctionName = []\<rparr>,
       \<lparr>Number = 2, Type = GO_STATEMENT, EndLine = 4,
          LastSuccessor = Some 1, successor = [(5, 1)], FunctionName = []\<rparr>])"
  by code_simp

text \<open>
  C6, amended. \<^verbatim>\<open>AddBasicBlock\<close> on a line that has a block returns the reference of
  that block, leaves the registry as it is and overwrites the block with the new block's
  data: the new kind, no successor, no function name (and the number \<open>-1\<close>, no last
  successor). On a line that has no block it registers a freshly allocated block. In both
  cases no other block changes. Hence a second call for the same line returns the same
  block, which holds the data of the second call only when that call returns. (Edges that
  a statement adds to the block afterwards, through a reference it holds, stay on it.)
\<close>

theorem AddBasicBlock_get_or_create:
  assumes "registry_ok v" and "AddBasicBlock t line v = (b, v')"
  shows "(case map_of (basicBlocks v) line of
            Some bb \<Rightarrow> b = bb \<and> basicBlocks v' = basicBlocks v
          | None \<Rightarrow> b = length (heap v) \<and> b \<notin> refs v
                     \<and> basicBlocks v' = basicBlocks v @ [(line, b)])
         \<and> map_of (basicBlocks v') line = Some b
         \<and> heap v' ! b = NewBasicBlock (- 1) t line
         \<and> Type (heap v' ! b) = t \<and> successor (heap v' ! b) = []
         \<and> FunctionName (heap v' ! b) = '''' \<and> EndLine (heap v' ! b) = line
         \<and> (\<forall>a < length (heap v). a \<noteq> b \<longrightarrow> heap v' ! a = heap v ! a)
         \<and> lastBlock v' = Some b
         \<and> (\<forall>t2 b2 v2. AddBasicBlock t2 line v' = (b2, v2) \<longrightarrow>
               b2 = b \<and> basicBlocks v2 = basicBlocks v'
               \<and> heap v2 ! b = NewBasicBlock (- 1) t2 line)"
proof (cases "map_of (basicBlocks v) line")
  case None
  have fresh: "length (heap v) \<notin> refs v"
    using assms(1) by (auto simp: registry_ok_def refs_def)
  from None assms(2) have b: "b = length (heap v)"
    and v': "v' = v\<lparr>heap := heap v @ [NewBasicBlock (- 1) t line],
        basicBlocks := basicBlocks v @ [(line, length (heap v))],
        lastBlock := Some (length (heap v))\<rparr>"
    by (auto simp: AddBasicBlock_fresh)
  have m: "map_of (basicBlocks v') line = Some b"
    using None by (simp add: v' b map_add_def)
  have lt: "b < length (heap v')" by (simp add: v' b)
  have again: "AddBasicBlock t2 line v' =
      (b, v'\<lparr>heap := (heap v')[b := NewBasicBlock (- 1) t2 line] @ [NewBasicBlock (- 1) t2 line],
             lastBlock := Some b\<rparr>)" for t2
    using AddBasicBlock_existing[OF m lt] .
  show ?thesis
    using None fresh lt
    by (auto simp: again m nth_append) (simp_all add: v' b nth_append NewBasicBlock_def)
next
  case (Some bb)
  then have "(line, bb) \<in> set (basicBlocks v)" by (rule map_of_SomeD)
  then have lt: "bb < length (heap v)" using assms(1) by (auto simp: registry_ok_def)
  from AddBasicBlock_existing[OF Some lt] assms(2) have b: "b = bb"
    and v': "v' = v\<lparr>heap := (heap v)[bb := NewBasicBlock (- 1) t line]
                             @ [NewBasicBlock (- 1) t line],
                   lastBlock := Some bb\<rparr>"
    by auto
  have m: "map_of (basicBlocks v') line = Some b"
    using Some by (simp add: v' b)
  have lt': "b < length (heap v')" using lt by (simp add: v' b)
  have again: "AddBasicBlock t2 line v' =
      (b, v'\<lparr>heap := (heap v')[b := NewBasicBlock (- 1) t2 line] @ [NewBasicBlock (- 1) t2 line],
             lastBlock := Some b\<rparr>)" for t2
    using AddBasicBlock_existing[OF m lt'] .
  show ?thesis
    using Some lt lt'
    by (auto simp: again m nth_append) (simp_all add: v' b nth_append NewBasicBlock_def)
qed

text \<open>
  The theorem at the registry with an \<^verbatim>\<open>IF_CONDITION\<close> block at line 3, where a return
  statement on the same line is added: the block is kept and becomes a \<^verbatim>\<open>RETURN_STMT\<close>.
\<close>

theorem AddBasicBlock_get_or_create_witness:
  "registry_ok visitorIfAt3
   \<and> AddBasicBlock RETURN_STMT 3 visitorIfAt3 =
       (0, visitorIfAt3\<lparr>heap := [NewBasicBlock (- 1) RETURN_STMT 3,
                                  NewBasicBlock (- 1) RETURN_STMT 3]\<rparr>)
   \<and> map_of (basicBlocks visitorIfAt3) 3 = Some 0
   \<and> Type (heap (snd (AddBasicBlock RETURN_STMT 3 visitorIfAt3)) ! 0) = RETURN_STMT
   \<and> basicBlocks (snd (AddBasicBlock RETURN_STMT 3 visitorIfAt3)) = [(3, 0)]"
proof -
  have h1: "registry_ok visitorIfAt3"
    by (simp add: registry_ok_def visitorIfAt3_def NewBasicBlock_def)
  have h2: "AddBasicBlock RETURN_STMT 3 visitorIfAt3 =
       (0, visitorIfAt3\<lparr>heap := [NewBasicBlock (- 1) RETURN_STMT 3,
                                  NewBasicBlock (- 1) RETURN_STMT 3]\<rparr>)"
    by (simp add: AddBasicBlock_def visitorIfAt3_def NewBasicBlock_def UpdateBasicBlock_def)
  have h3: "map_of (basicBlocks visitorIfAt3) 3 = Some 0"
    by (simp add: visitorIfAt3_def)
  show ?thesis
    using AddBasicBlock_get_or_create [OF h1 h2] h1 h2 h3
    by (simp add: visitorIfAt3_def)
qed

section \<open>Panics of the traversal\<close>

text \<open>
  C1. The traversal does not complete on every valid tree. The file
  \<^verbatim>\<open>package p / func f() { / if true { / } / }\<close> (lines 1 to 5, split at the slashes)
  parses; its \<^verbatim>\<open>IfStmt\<close> has \<^verbatim>\<open>Else == nil\<close>, and \<^verbatim>\<open>t.Else.Pos()\<close> panics.
\<close>

theorem traversal_panics_on_if_without_else:
  "GetBasicBlocksFromSourceCode
     (Inr (Other 1 5 [Other 1 1 [],
        FuncDecl 2 5 ''f'' (Some [IfStmt 3 4 [Other 3 3 []] [] None])]))
   = Inl NilDereference"
  by (simp add: run_defs)

text \<open>
  C2. Visiting an if statement without an else clause emits no \<^verbatim>\<open>ELSE_CONDITION\<close> and
  no \<^verbatim>\<open>ELSE_BODY\<close> block: the call panics, in every state and for every body.
\<close>

theorem Visit_if_without_else_panics:
  "Visit (IfStmt p e cond body None) v = Inl NilDereference"
  by (simp add: Let_def split: prod.splits)

text \<open>
  C7. A for statement whose body holds another for statement adds no edge back to its
  header: the inner statement leaves \<^verbatim>\<open>forBlock\<close> nil, and the outer statement's
  \<^verbatim>\<open>v.lastBlock.AddSuccessorBlock(v.forBlock)\<close> panics. The file is
  \<^verbatim>\<open>package p / func f() { / for { / for { / } / } / }\<close>, lines 1 to 7.
\<close>

theorem nested_for_panics:
  "GetBasicBlocksFromSourceCode
     (Inr (Other 1 7 [Other 1 1 [],
        FuncDecl 2 7 ''f'' (Some [ForStmt 3 6 [ForStmt 4 5 []]])]))
   = Inl NilDereference"
  by (simp add: run_defs)

text \<open>
  Two runs next to these panics. A function declared without a body (\<^verbatim>\<open>func f()\<close>, which
  the parser accepts) panics as well, at \<^verbatim>\<open>t.Body.List\<close>. And an if statement with an
  else clause gives the three blocks and the edges: the file is
  \<^verbatim>\<open>package p / func f() { / if c { / } else { / } / return / }\<close>, lines 1 to 7; the
  \<^verbatim>\<open>IF_CONDITION\<close> block (line 3) has the edge to the \<^verbatim>\<open>ELSE_BODY\<close> block (line 5), and
  the \<^verbatim>\<open>ELSE_CONDITION\<close> block (line 4) and the \<^verbatim>\<open>ELSE_BODY\<close> block have the edge to the
  return block (line 6).
\<close>

lemma function_without_body_panics:
  "GetBasicBlocksFromSourceCode (Inr (Other 1 2 [Other 1 1 [], FuncDecl 2 2 ''f'' None]))
   = Inl NilDereference"
  by (simp add: run_defs)

lemma if_with_else_example:
  "GetBasicBlocksFromSourceCode
     (Inr (Other 1 7 [Other 1 1 [],
        FuncDecl 2 7 ''f''
          (Some [IfStmt 3 5 [Other 3 3 []] [] (Some (Other 4 5 [])),
                 ReturnStmt 6 6 []])]))
   = Inr ([0, 2, 3, 4, 1],
      [\<lparr>Number = 0, Type = FUNCTION_ENTRY, EndLine = 2,
          LastSuccessor = Some 2, successor = [(3, 2)], FunctionName = ''f''\<rparr>,
       \<lparr>Number = 4, Type = RETURN_STMT, EndLine = 6, LastSuccessor = None,
          successor = [], FunctionName = []\<rparr>,
       \<lparr>Number = 1, Type = IF_CONDITION, EndLine = 3,
          LastSuccessor = Some 3, successor = [(5, 4), (4, 3)], FunctionName = []\<rparr>,
       \<lparr>Number = 2, Type = ELSE_CONDITION, EndLine = 4,
          LastSuccessor = Some 1, successor = [(6, 1)], FunctionName = []\<rparr>,
       \<lparr>Number = 3, Type = ELSE_BODY, EndLine = 5, LastSuccessor = Some 1,
          successor = [(6, 1)], FunctionName = []\<rparr>,
       \<lparr>Number = - 1, Type = RETURN_STMT, EndLine = 6, LastSuccessor = None,
          successor = [], FunctionName = []\<rparr>])"
  by code_simp

section \<open>The invariant through the visitor's steps\<close>

lemma extends_refl: "sound v \<Longrightarrow> extends v v"
  by (simp add: extends_def)

lemma extends_trans: "extends v v1 \<Longrightarrow> extends v1 v2 \<Longrightarrow> extends v v2"
  by (auto simp: extends_def)

lemma set_AList_update: "set (AList.update k x al) \<subseteq> insert (k, x) (set al)"
  by (induction al) auto

lemma sound_newVisitor: "sound newVisitor"
  by (simp add: sound_def registry_ok_def closed_def newVisitor_def refs_def)

lemma registry_okD:
  "registry_ok v \<Longrightarrow> (l, a) \<in> set (basicBlocks v) \<Longrightarrow>
     a < length (heap v) \<and> EndLine (heap v ! a) = l"
  by (auto simp: registry_ok_def)

lemma refs_lt: "registry_ok v \<Longrightarrow> a \<in> refs v \<Longrightarrow> a < length (heap v)"
  by (auto simp: refs_def dest: registry_okD)

lemma registry_okI:
  "distinct (map fst (basicBlocks v)) \<Longrightarrow> distinct (map snd (basicBlocks v)) \<Longrightarrow>
   (\<And>l a. (l, a) \<in> set (basicBlocks v) \<Longrightarrow> a < length (heap v) \<and> EndLine (heap v ! a) = l)
   \<Longrightarrow> registry_ok v"
  by (auto simp: registry_ok_def)

lemma closedI:
  "(\<And>a k s. a \<in> refs v \<Longrightarrow> (k, s) \<in> set (successor (heap v ! a)) \<Longrightarrow> s \<in> refs v) \<Longrightarrow>
   set_option (lastBlock v) \<subseteq> refs v \<Longrightarrow> set_option (returnBlock v) \<subseteq> refs v \<Longrightarrow>
   set_option (forBlock v) \<subseteq> refs v \<Longrightarrow> set_option (switchBlock v) \<subseteq> refs v \<Longrightarrow> closed v"
  unfolding closed_def by blast

lemma closed_succD:
  "closed v \<Longrightarrow> a \<in> refs v \<Longrightarrow> (k, s) \<in> set (successor (heap v ! a)) \<Longrightarrow> s \<in> refs v"
  unfolding closed_def by blast

lemma AddBasicBlock_fresh_sound:
  fixes t :: BasicBlockType
  assumes i: "sound v" and n: "map_of (basicBlocks v) line = None"
  defines "v' \<equiv> v\<lparr>heap := heap v @ [NewBasicBlock (- 1) t line],
        basicBlocks := basicBlocks v @ [(line, length (heap v))],
        lastBlock := Some (length (heap v))\<rparr>"
  shows "sound v'" and "refs v' = insert (length (heap v)) (refs v)"
proof -
  have ro: "registry_ok v" and cl: "closed v" using i by (simp_all add: sound_def)
  show r: "refs v' = insert (length (heap v)) (refs v)"
    by (auto simp: v'_def refs_def)
  have nk: "line \<notin> fst ` set (basicBlocks v)"
    using n by (simp add: map_of_eq_None_iff)
  have nr: "length (heap v) \<notin> snd ` set (basicBlocks v)"
    using refs_lt[OF ro, of "length (heap v)"] by (auto simp: refs_def)
  have reg: "registry_ok v'"
  proof (rule registry_okI)
    show "distinct (map fst (basicBlocks v'))"
      using ro nk by (simp add: v'_def registry_ok_def)
    show "distinct (map snd (basicBlocks v'))"
      using ro nr by (simp add: v'_def registry_ok_def)
    fix l a assume "(l, a) \<in> set (basicBlocks v')"
    then consider "(l, a) \<in> set (basicBlocks v)" | "l = line" "a = length (heap v)"
      by (auto simp: v'_def)
    then show "a < length (heap v') \<and> EndLine (heap v' ! a) = l"
    proof cases
      case 1
      from registry_okD[OF ro 1] show ?thesis by (simp add: v'_def nth_append)
    next
      case 2
      then show ?thesis by (simp add: v'_def NewBasicBlock_def)
    qed
  qed
  have cl': "closed v'"
  proof (rule closedI)
    fix a k s assume a: "a \<in> refs v'" and ks: "(k, s) \<in> set (successor (heap v' ! a))"
    show "s \<in> refs v'"
    proof (cases "a = length (heap v)")
      case True
      with ks show ?thesis by (simp add: v'_def NewBasicBlock_def)
    next
      case False
      with a r have ar: "a \<in> refs v" by simp
      then have "a < length (heap v)" by (rule refs_lt[OF ro])
      with ks have "(k, s) \<in> set (successor (heap v ! a))" by (simp add: v'_def nth_append)
      from closed_succD[OF cl ar this] show ?thesis by (simp add: r)
    qed
  next
    show "set_option (lastBlock v') \<subseteq> refs v'" unfolding r by (simp add: v'_def)
    show "set_option (returnBlock v') \<subseteq> refs v'" unfolding r using cl by (auto simp: v'_def closed_def)
    show "set_option (forBlock v') \<subseteq> refs v'" unfolding r using cl by (auto simp: v'_def closed_def)
    show "set_option (switchBlock v') \<subseteq> refs v'" unfolding r using cl by (auto simp: v'_def closed_def)
  qed
  show "sound v'" using reg cl' by (simp add: sound_def)
qed

lemma AddBasicBlock_existing_sound:
  fixes t :: BasicBlockType
  assumes i: "sound v" and n: "map_of (basicBlocks v) line = Some bb"
  defines "v' \<equiv> v\<lparr>heap := (heap v)[bb := NewBasicBlock (- 1) t line]
                             @ [NewBasicBlock (- 1) t line],
                   lastBlock := Some bb\<rparr>"
  shows "sound v'" and "refs v' = refs v" and "bb \<in> refs v" and "bb < length (heap v)"
proof -
  have ro: "registry_ok v" and cl: "closed v" using i by (simp_all add: sound_def)
  from n have mem: "(line, bb) \<in> set (basicBlocks v)" by (rule map_of_SomeD)
  show lt: "bb < length (heap v)" using registry_okD[OF ro mem] by simp
  show bin: "bb \<in> refs v" using mem by (force simp: refs_def)
  show r: "refs v' = refs v" by (simp add: v'_def refs_def)
  have reg: "registry_ok v'"
  proof (rule registry_okI)
    show "distinct (map fst (basicBlocks v'))" using ro by (simp add: v'_def registry_ok_def)
    show "distinct (map snd (basicBlocks v'))" using ro by (simp add: v'_def registry_ok_def)
    fix l a assume la: "(l, a) \<in> set (basicBlocks v')"
    then have la': "(l, a) \<in> set (basicBlocks v)" by (simp add: v'_def)
    note d = registry_okD[OF ro la']
    show "a < length (heap v') \<and> EndLine (heap v' ! a) = l"
    proof (cases "a = bb")
      case True
      have "distinct (map snd (basicBlocks v))" using ro by (simp add: registry_ok_def)
      then have "inj_on snd (set (basicBlocks v))" by (simp add: distinct_map)
      from inj_onD[OF this _ la' mem] True have "l = line" by simp
      with True lt show ?thesis by (simp add: v'_def nth_append NewBasicBlock_def)
    next
      case False
      with d show ?thesis by (simp add: v'_def nth_append)
    qed
  qed
  have cl': "closed v'"
  proof (rule closedI)
    fix a k s assume a: "a \<in> refs v'" and ks: "(k, s) \<in> set (successor (heap v' ! a))"
    from a r have ar: "a \<in> refs v" by simp
    then have alt: "a < length (heap v)" by (rule refs_lt[OF ro])
    show "s \<in> refs v'"
    proof (cases "a = bb")
      case True
      with ks lt show ?thesis by (simp add: v'_def nth_append NewBasicBlock_def)
    next
      case False
      with ks alt have "(k, s) \<in> set (successor (heap v ! a))" by (simp add: v'_def nth_append)
      from closed_succD[OF cl ar this] show ?thesis by (simp add: r)
    qed
  next
    show "set_option (lastBlock v') \<subseteq> refs v'" unfolding r using bin by (simp add: v'_def)
    show "set_option (returnBlock v') \<subseteq> refs v'" unfolding r using cl by (auto simp: v'_def closed_def)
    show "set_option (forBlock v') \<subseteq> refs v'" unfolding r using cl by (auto simp: v'_def closed_def)
    show "set_option (switchBlock v') \<subseteq> refs v'" unfolding r using cl by (auto simp: v'_def closed_def)
  qed
  show "sound v'" using reg cl' by (simp add: sound_def)
qed

lemma AddBasicBlock_sound:
  assumes "sound v" and "AddBasicBlock t line v = (b, v')"
  shows "extends v v' \<and> b \<in> refs v' \<and> lastBlock v' = Some b
         \<and> returnBlock v' = returnBlock v \<and> forBlock v' = forBlock v
         \<and> switchBlock v' = switchBlock v \<and> forBodyBlock v' = forBodyBlock v
         \<and> Type (heap v' ! b) = t"
proof (cases "map_of (basicBlocks v) line")
  case None
  from None assms(2) have b: "b = length (heap v)"
    and v': "v' = v\<lparr>heap := heap v @ [NewBasicBlock (- 1) t line],
        basicBlocks := basicBlocks v @ [(line, length (heap v))],
        lastBlock := Some (length (heap v))\<rparr>"
    by (auto simp: AddBasicBlock_fresh)
  from AddBasicBlock_fresh_sound[OF assms(1) None]
  have "sound v'" and "refs v' = insert b (refs v)" by (simp_all add: v' b)
  then have "extends v v'" "b \<in> refs v'" by (auto simp: extends_def)
  moreover have "Type (heap v' ! b) = t" by (simp add: v' b NewBasicBlock_def)
  ultimately show ?thesis by (simp add: v' b)
next
  case (Some bb)
  note facts = AddBasicBlock_existing_sound[OF assms(1) Some]
  from AddBasicBlock_existing[OF Some facts(4)] assms(2) have b: "b = bb"
    and v': "v' = v\<lparr>heap := (heap v)[bb := NewBasicBlock (- 1) t line]
                             @ [NewBasicBlock (- 1) t line],
                   lastBlock := Some bb\<rparr>"
    by auto
  from facts have "sound v'" and "refs v' = refs v" and "b \<in> refs v" by (simp_all add: v' b)
  then have "extends v v'" "b \<in> refs v'" by (auto simp: extends_def)
  moreover have "Type (heap v' ! b) = t"
    using facts(4) by (simp add: v' b nth_append NewBasicBlock_def)
  ultimately show ?thesis by (simp add: v' b)
qed

lemma AddSuccessorBlock_fields [simp]:
  "basicBlocks (AddSuccessorBlock b s v) = basicBlocks v"
  "lastBlock (AddSuccessorBlock b s v) = lastBlock v"
  "returnBlock (AddSuccessorBlock b s v) = returnBlock v"
  "forBlock (AddSuccessorBlock b s v) = forBlock v"
  "forBodyBlock (AddSuccessorBlock b s v) = forBodyBlock v"
  "switchBlock (AddSuccessorBlock b s v) = switchBlock v"
  "refs (AddSuccessorBlock b s v) = refs v"
  "length (heap (AddSuccessorBlock b s v)) = length (heap v)"
  by (simp_all add: AddSuccessorBlock_def refs_def)

lemma AddSuccessorBlock_nth:
  "a < length (heap v) \<Longrightarrow>
   heap (AddSuccessorBlock b s v) ! a =
     (if a = b then (heap v ! b)
          \<lparr>successor := AList.update (EndLine (heap v ! s)) s (successor (heap v ! b)),
           LastSuccessor := Some s\<rparr>
      else heap v ! a)"
  by (simp add: AddSuccessorBlock_def nth_list_update)

lemma AddSuccessorBlock_sound:
  assumes i: "sound v" and b: "b \<in> refs v" and s: "s \<in> refs v"
  shows "sound (AddSuccessorBlock b s v)"
proof -
  let ?v = "AddSuccessorBlock b s v"
  have ro: "registry_ok v" and cl: "closed v" using i by (simp_all add: sound_def)
  have reg: "registry_ok ?v"
  proof (rule registry_okI)
    show "distinct (map fst (basicBlocks ?v))" using ro by (simp add: registry_ok_def)
    show "distinct (map snd (basicBlocks ?v))" using ro by (simp add: registry_ok_def)
    fix l a assume "(l, a) \<in> set (basicBlocks ?v)"
    then have "(l, a) \<in> set (basicBlocks v)" by simp
    from registry_okD[OF ro this]
    show "a < length (heap ?v) \<and> EndLine (heap ?v ! a) = l"
      by (auto simp: AddSuccessorBlock_nth)
  qed
  have cl': "closed ?v"
  proof (rule closedI)
    fix a k x assume a: "a \<in> refs ?v" and ks: "(k, x) \<in> set (successor (heap ?v ! a))"
    from a have ar: "a \<in> refs v" by simp
    then have alt: "a < length (heap v)" by (rule refs_lt[OF ro])
    show "x \<in> refs ?v"
    proof (cases "a = b")
      case True
      with ks alt have "(k, x) \<in> set (AList.update (EndLine (heap v ! s)) s (successor (heap v ! b)))"
        by (simp add: AddSuccessorBlock_nth)
      from subsetD[OF set_AList_update this]
      have "(k, x) = (EndLine (heap v ! s), s) \<or> (k, x) \<in> set (successor (heap v ! b))"
        by simp
      then show ?thesis using s closed_succD[OF cl b, of k x] by auto
    next
      case False
      with ks alt have "(k, x) \<in> set (successor (heap v ! a))" by (simp add: AddSuccessorBlock_nth)
      from closed_succD[OF cl ar this] show ?thesis by simp
    qed
  next
    show "set_option (lastBlock ?v) \<subseteq> refs ?v" using cl by (simp add: closed_def)
    show "set_option (returnBlock ?v) \<subseteq> refs ?v" using cl by (simp add: closed_def)
    show "set_option (forBlock ?v) \<subseteq> refs ?v" using cl by (simp add: closed_def)
    show "set_option (switchBlock ?v) \<subseteq> refs ?v" using cl by (simp add: closed_def)
  qed
  show ?thesis using reg cl' by (simp add: sound_def)
qed

lemma refs_updates [simp]:
  "refs (v\<lparr>returnBlock := r\<rparr>) = refs v"
  "refs (v\<lparr>forBlock := r\<rparr>) = refs v"
  "refs (v\<lparr>switchBlock := r\<rparr>) = refs v"
  "refs (v\<lparr>lastBlock := r\<rparr>) = refs v"
  "refs (v\<lparr>heap := h\<rparr>) = refs v"
  by (simp_all add: refs_def)

lemma sound_returnBlock:
  "sound v \<Longrightarrow> set_option r \<subseteq> refs v \<Longrightarrow> sound (v\<lparr>returnBlock := r\<rparr>)"
  by (simp add: sound_def registry_ok_def closed_def)

lemma sound_forBlock:
  "sound v \<Longrightarrow> set_option r \<subseteq> refs v \<Longrightarrow> sound (v\<lparr>forBlock := r\<rparr>)"
  by (simp add: sound_def registry_ok_def closed_def)

lemma sound_switchBlock:
  "sound v \<Longrightarrow> set_option r \<subseteq> refs v \<Longrightarrow> sound (v\<lparr>switchBlock := r\<rparr>)"
  by (simp add: sound_def registry_ok_def closed_def)

lemma sound_refD:
  assumes "sound v"
  shows "lastBlock v = Some r \<Longrightarrow> r \<in> refs v"
    and "returnBlock v = Some r \<Longrightarrow> r \<in> refs v"
    and "forBlock v = Some r \<Longrightarrow> r \<in> refs v"
    and "switchBlock v = Some r \<Longrightarrow> r \<in> refs v"
  using assms by (simp_all add: sound_def closed_def)

lemma sound_heap_same:
  assumes s: "sound v" and e: "EndLine x = EndLine (heap v ! b)"
    and su: "successor x = successor (heap v ! b)"
  shows "sound (v\<lparr>heap := (heap v)[b := x]\<rparr>)"
proof -
  let ?v = "v\<lparr>heap := (heap v)[b := x]\<rparr>"
  have ro: "registry_ok v" and cl: "closed v" using s by (simp_all add: sound_def)
  have E: "EndLine (heap ?v ! a) = EndLine (heap v ! a)" if "a < length (heap v)" for a
    using that e by (cases "a = b") simp_all
  have S: "successor (heap ?v ! a) = successor (heap v ! a)" if "a < length (heap v)" for a
    using that su by (cases "a = b") simp_all
  have reg: "registry_ok ?v"
  proof (rule registry_okI)
    show "distinct (map fst (basicBlocks ?v))" using ro by (simp add: registry_ok_def)
    show "distinct (map snd (basicBlocks ?v))" using ro by (simp add: registry_ok_def)
    fix l a assume "(l, a) \<in> set (basicBlocks ?v)"
    then have "(l, a) \<in> set (basicBlocks v)" by simp
    from registry_okD[OF ro this] E[of a]
    show "a < length (heap ?v) \<and> EndLine (heap ?v ! a) = l" by simp
  qed
  have cl': "closed ?v"
  proof (rule closedI)
    fix a k y assume a: "a \<in> refs ?v" and ks: "(k, y) \<in> set (successor (heap ?v ! a))"
    from a have ar: "a \<in> refs v" by simp
    from refs_lt[OF ro ar] S[of a] ks have "(k, y) \<in> set (successor (heap v ! a))" by simp
    from closed_succD[OF cl ar this] show "y \<in> refs ?v" by simp
  next
    show "set_option (lastBlock ?v) \<subseteq> refs ?v" using cl by (simp add: closed_def)
    show "set_option (returnBlock ?v) \<subseteq> refs ?v" using cl by (simp add: closed_def)
    show "set_option (forBlock ?v) \<subseteq> refs ?v" using cl by (simp add: closed_def)
    show "set_option (switchBlock ?v) \<subseteq> refs ?v" using cl by (simp add: closed_def)
  qed
  show ?thesis using reg cl' by (simp add: sound_def)
qed

lemma extends_sound: "extends v v' \<Longrightarrow> sound v'"
  and extends_refs: "extends v v' \<Longrightarrow> a \<in> refs v \<Longrightarrow> a \<in> refs v'"
  by (auto simp: extends_def)

lemma extendsI: "sound v' \<Longrightarrow> refs v \<subseteq> refs v' \<Longrightarrow> extends v v'"
  by (simp add: extends_def)

lemma AddSuccessorBlock_extends:
  "sound v \<Longrightarrow> b \<in> refs v \<Longrightarrow> s \<in> refs v \<Longrightarrow> extends v (AddSuccessorBlock b s v)"
  by (simp add: extends_def AddSuccessorBlock_sound)

text \<open>Linking to an optional target.\<close>

lemma link_opt_sound:
  assumes "sound v" and "b \<in> refs v" and "set_option r \<subseteq> refs v"
  shows "sound (case r of None \<Rightarrow> v | Some x \<Rightarrow> AddSuccessorBlock b x v)"
    and "sound (case r of None \<Rightarrow> v | Some x \<Rightarrow> AddSuccessorBlock x b v)"
  using assms by (cases r; simp add: AddSuccessorBlock_sound)+

lemma scanReturns_extends: "sound v \<Longrightarrow> extends v (scanReturns ns v)"
proof (induction ns v rule: scanReturns.induct)
  case (1 v)
  then show ?case by (simp add: extends_refl)
next
  case (2 p e r list v)
  obtain b v1 where a: "AddBasicBlock RETURN_STMT e v = (b, v1)" by force
  from AddBasicBlock_sound[OF "2.prems" a] have ex: "extends v v1" and b: "b \<in> refs v1" by simp_all
  have s2: "sound (v1\<lparr>returnBlock := Some b\<rparr>)"
    using ex b by (simp add: sound_returnBlock extends_sound)
  have "extends (v1\<lparr>returnBlock := Some b\<rparr>) (scanReturns list (v1\<lparr>returnBlock := Some b\<rparr>))"
    using "2.IH" a s2 by simp
  then have "extends v (scanReturns list (v1\<lparr>returnBlock := Some b\<rparr>))"
    using ex by (auto simp: extends_def)
  then show ?case using a by simp
qed (simp_all)

lemma switchHeader_sound:
  assumes s: "sound v" and h: "switchHeader t line v = (sw, v1)"
  shows "extends v v1 \<and> sw \<in> refs v1 \<and> switchBlock v1 = Some sw
         \<and> returnBlock v1 = returnBlock v \<and> forBlock v1 = forBlock v"
proof -
  obtain b v0 where a: "AddBasicBlock t line v = (b, v0)" by force
  note A = AddBasicBlock_sound[OF s a]
  let ?v2 = "v0\<lparr>switchBlock := Some b\<rparr>"
  from A have ex: "extends v v0" and b0: "b \<in> refs v0" by simp_all
  have s2: "sound ?v2" and b2: "b \<in> refs ?v2"
    using b0 extends_sound[OF ex] by (simp_all add: sound_switchBlock)
  show ?thesis
  proof (cases "forBlock v0")
    case None
    with h a have "sw = b" "v1 = ?v2" by (auto simp: switchHeader_def)
    with A s2 None show ?thesis by (simp add: extends_def)
  next
    case (Some f)
    with h a have e: "sw = b" "v1 = AddSuccessorBlock b f (AddSuccessorBlock f b ?v2)"
      by (auto simp: switchHeader_def)
    have f2: "f \<in> refs ?v2" using sound_refD(3)[OF s2, of f] Some by simp
    have s3: "sound (AddSuccessorBlock f b ?v2)" by (rule AddSuccessorBlock_sound[OF s2 f2 b2])
    have "sound v1" unfolding e
      by (rule AddSuccessorBlock_sound[OF s3]) (use b2 f2 in simp_all)
    with A e Some show ?thesis by (simp add: extends_def)
  qed
qed

section \<open>The invariant through Visit\<close>

lemma Visit_FuncDecl:
  "Visit (FuncDecl p e name body) v =
     (case body of
        None \<Rightarrow> Inl NilDereference
      | Some list \<Rightarrow>
          (case VisitList list (funcEntry p e name list v) of
             Inl err \<Rightarrow> Inl err
           | Inr v5 \<Rightarrow> Inr (v5\<lparr>returnBlock := None\<rparr>)))"
  by (simp add: funcEntry_def Let_def split: prod.splits option.splits)

lemma Visit_IfStmt:
  "Visit (IfStmt p e cond body els) v =
     (case els of
        None \<Rightarrow> Inl NilDereference
      | Some el \<Rightarrow>
          (case ifEntry p el v of
             (ifBlock, ec, eb, v4) \<Rightarrow>
               (case VisitList body v4 of
                  Inl err \<Rightarrow> Inl err
                | Inr v5 \<Rightarrow> Inr (ifExit ec eb v5))))"
  by (simp add: ifEntry_def ifExit_def Let_def split: prod.splits option.splits
        cong: sum.case_cong option.case_cong)

lemma Visit_ForStmt:
  "Visit (ForStmt p e body) v =
     (case forEntry p v of
        (b, tmpReturnBlock, v4) \<Rightarrow>
          (case VisitList body v4 of
             Inl err \<Rightarrow> Inl err
           | Inr v5 \<Rightarrow> forExit e tmpReturnBlock v5))"
  by (simp add: forEntry_def forExit_def Let_def split: prod.splits
        cong: sum.case_cong option.case_cong if_cong)

lemma Visit_SwitchStmt:
  "Visit (SwitchStmt p e body) v = VisitList body (snd (switchEntry p v))"
  by (simp add: switchEntry_def Let_def split: prod.splits)

lemma clauseBlock_Add:
  "clauseBlock g e body v = Inr (cc, v1) \<Longrightarrow> \<exists>t l. AddBasicBlock t l v = (cc, v1)"
  by (auto simp: clauseBlock_def split: prod.splits if_splits option.splits)

lemma clauseEntry_sound:
  assumes s: "sound v" and h: "clauseEntry g e body v = Inr (cc, v4)"
  shows "extends v v4 \<and> cc \<in> refs v4 \<and> returnBlock v4 = returnBlock v
         \<and> switchBlock v4 = switchBlock v \<and> forBlock v4 = forBlock v
         \<and> forBodyBlock v4 = forBodyBlock v"
proof -
  from h obtain v1 where cb: "clauseBlock g e body v = Inr (cc, v1)"
    by (auto simp: clauseEntry_def Let_def split: sum.splits)
  then obtain t l where a: "AddBasicBlock t l v = (cc, v1)" using clauseBlock_Add by blast
  note A = AddBasicBlock_sound[OF s a]
  from A have ex: "extends v v1" and c1: "cc \<in> refs v1" by simp_all
  have s1: "sound v1" using ex by (rule extends_sound)
  have R: "\<And>r. forBlock v1 = Some r \<Longrightarrow> r \<in> refs v1"
    "\<And>r. switchBlock v1 = Some r \<Longrightarrow> r \<in> refs v1"
    "\<And>r. returnBlock v1 = Some r \<Longrightarrow> r \<in> refs v1"
    using sound_refD[OF s1] by simp_all
  have "sound v4 \<and> refs v4 = refs v1 \<and> returnBlock v4 = returnBlock v1
      \<and> switchBlock v4 = switchBlock v1 \<and> forBlock v4 = forBlock v1
      \<and> forBodyBlock v4 = forBodyBlock v1"
    using h cb s1 c1 R
    by (cases "forBlock v1"; cases "switchBlock v1"; cases "returnBlock v1")
       (auto simp: clauseEntry_def Let_def AddSuccessorBlock_sound)
  then show ?thesis using A by (simp add: extends_def)
qed

lemma clauseExit_sound:
  assumes s: "sound v" and c: "cc \<in> refs v"
  shows "sound (clauseExit cc v) \<and> refs (clauseExit cc v) = refs v
         \<and> returnBlock (clauseExit cc v) = returnBlock v
         \<and> switchBlock (clauseExit cc v) = switchBlock v
         \<and> forBlock (clauseExit cc v) = forBlock v
         \<and> forBodyBlock (clauseExit cc v) = forBodyBlock v"
proof (cases "returnBlock v")
  case None
  then show ?thesis using s by (simp add: clauseExit_def)
next
  case (Some r)
  then have "r \<in> refs v" using sound_refD(2)[OF s] by simp
  then have "sound (AddSuccessorBlock cc r v)" using s c by (simp add: AddSuccessorBlock_sound)
  then show ?thesis using s Some by (simp add: clauseExit_def)
qed

lemma VisitList_extends:
  assumes IH: "\<And>n v v'. n \<in> set ns \<Longrightarrow> sound v \<Longrightarrow> Visit n v = Inr v' \<Longrightarrow> extends v v'"
  shows "sound v \<Longrightarrow> VisitList ns v = Inr v' \<Longrightarrow> extends v v'"
  using IH
proof (induction ns arbitrary: v)
  case Nil
  then show ?case by (simp add: extends_refl)
next
  case (Cons n ns)
  from Cons.prems(2) obtain v1 where 1: "Visit n v = Inr v1" and 2: "VisitList ns v1 = Inr v'"
    by (auto split: sum.splits)
  have e1: "extends v v1" using Cons.prems(3)[OF _ Cons.prems(1) 1] by simp
  have e2: "extends v1 v'"
    by (rule Cons.IH[OF extends_sound[OF e1] 2]) (rule Cons.prems(3), simp_all)
  show ?case using e1 e2 by (rule extends_trans)
qed

lemma funcEntry_sound:
  assumes s: "sound v"
  shows "extends v (funcEntry p e name list v)"
proof -
  obtain fd v1 where a1: "AddBasicBlock FUNCTION_ENTRY p v = (fd, v1)" by force
  from AddBasicBlock_sound[OF s a1] have e1: "extends v v1" by simp
  let ?v2 = "v1\<lparr>heap := (heap v1)[fd := (heap v1 ! fd)\<lparr>FunctionName := name\<rparr>]\<rparr>"
  let ?v3 = "scanReturns list ?v2"
  have s2: "sound ?v2"
    by (rule sound_heap_same[OF extends_sound[OF e1]]) simp_all
  have r2: "refs ?v2 = refs v1" by simp
  have e3: "extends ?v2 ?v3" by (rule scanReturns_extends[OF s2])
  have s3: "sound ?v3" using e3 by (rule extends_sound)
  have r3: "refs v \<subseteq> refs ?v3" using e1 e3 r2 by (auto simp: extends_def)
  show ?thesis
  proof (cases "returnBlock ?v3 = None")
    case True
    obtain b w where a: "AddBasicBlock RETURN_STMT e ?v3 = (b, w)" by force
    from AddBasicBlock_sound[OF s3 a]
    have "extends ?v3 w" "b \<in> refs w" by simp_all
    then have "extends ?v3 (w\<lparr>returnBlock := Some b\<rparr>)"
      by (simp add: extends_def sound_returnBlock)
    then have "extends v (w\<lparr>returnBlock := Some b\<rparr>)"
      using r3 by (auto simp: extends_def)
    then show ?thesis using True a a1 by (simp add: funcEntry_def Let_def)
  next
    case False
    have "extends v ?v3" using s3 r3 by (simp add: extends_def)
    then show ?thesis using False a1 by (auto simp: funcEntry_def Let_def)
  qed
qed

lemma AddBasicBlock_fields:
  "AddBasicBlock t l v = (b, v') \<Longrightarrow>
     returnBlock v' = returnBlock v \<and> forBlock v' = forBlock v
     \<and> switchBlock v' = switchBlock v \<and> forBodyBlock v' = forBodyBlock v
     \<and> lastBlock v' = Some b"
  by (auto simp: AddBasicBlock_def Let_def split: option.splits)

lemma forEntry_fields:
  assumes "forEntry p v = (b, tmp, v4)"
  shows "tmp = returnBlock v \<and> forBlock v4 = Some b \<and> returnBlock v4 = Some b
         \<and> switchBlock v4 = switchBlock v \<and> forBodyBlock v4 = forBodyBlock v
         \<and> lastBlock v4 = Some b"
proof -
  obtain b0 v1 where a1: "AddBasicBlock FOR_STATEMENT p v = (b0, v1)" by force
  from AddBasicBlock_fields[OF a1] assms a1 show ?thesis
    by (cases "returnBlock v") (auto simp: forEntry_def Let_def)
qed

lemma forEntry_sound:
  assumes s: "sound v" and h: "forEntry p v = (b, tmp, v4)"
  shows "extends v v4 \<and> set_option tmp \<subseteq> refs v4 \<and> b \<in> refs v4"
proof -
  obtain b0 v1 where a1: "AddBasicBlock FOR_STATEMENT p v = (b0, v1)" by force
  note A1 = AddBasicBlock_sound[OF s a1]
  from A1 have e1: "extends v v1" and b1: "b0 \<in> refs v1" by simp_all
  have s1: "sound v1" using e1 by (rule extends_sound)
  have s2: "sound (v1\<lparr>forBlock := Some b0\<rparr>)" using s1 b1 by (simp add: sound_forBlock)
  show ?thesis
  proof (cases "returnBlock v1")
    case None
    with h a1 have eq: "b = b0" "tmp = None"
      "v4 = v1\<lparr>forBlock := Some b0, returnBlock := Some b0\<rparr>"
      by (auto simp: forEntry_def Let_def)
    have "sound v4" unfolding eq using s2 b1 by (simp add: sound_returnBlock)
    then show ?thesis using e1 b1 eq by (simp add: extends_def)
  next
    case (Some r)
    with h a1 have eq: "b = b0" "tmp = Some r"
      "v4 = (AddSuccessorBlock b0 r (v1\<lparr>forBlock := Some b0\<rparr>))\<lparr>returnBlock := Some b0\<rparr>"
      by (auto simp: forEntry_def Let_def)
    have r1: "r \<in> refs v1" using sound_refD(2)[OF s1 Some] .
    have "sound (AddSuccessorBlock b0 r (v1\<lparr>forBlock := Some b0\<rparr>))"
      by (rule AddSuccessorBlock_sound[OF s2]) (use b1 r1 in simp_all)
    then have "sound v4" unfolding eq using b1 by (simp add: sound_returnBlock)
    then show ?thesis using e1 b1 eq r1 by (simp add: extends_def)
  qed
qed

lemma forExit_sound:
  assumes s: "sound v" and t: "set_option tmp \<subseteq> refs v" and h: "forExit e tmp v = Inr v'"
  shows "extends v v'"
proof -
  let ?v6 = "v\<lparr>returnBlock := tmp\<rparr>"
  have s6: "sound ?v6" using s t by (simp add: sound_returnBlock)
  from h obtain lb where lb: "lastBlock v = Some lb"
    by (cases "lastBlock v") (simp_all add: forExit_def)
  have l6: "lb \<in> refs v" using sound_refD(1)[OF s lb] .
  show ?thesis
  proof (cases "Type (heap v ! lb) = FOR_STATEMENT")
    case True
    obtain x w where a: "AddBasicBlock FOR_BODY e ?v6 = (x, w)" by force
    note A = AddBasicBlock_sound[OF s6 a]
    from A have ew: "extends ?v6 w" and xw: "x \<in> refs w" and lw: "lastBlock w = Some x"
      and tw: "Type (heap w ! x) = FOR_BODY" and fw: "forBlock w = forBlock v" by simp_all
    have sw: "sound w" using ew by (rule extends_sound)
    from h lb True a lw tw obtain f where f: "forBlock w = Some f"
      and v': "v' = (AddSuccessorBlock x f w)\<lparr>forBlock := None\<rparr>"
      by (cases "forBlock w") (simp_all add: forExit_def Let_def)
    have "f \<in> refs w" using sound_refD(3)[OF sw f] .
    then have "sound (AddSuccessorBlock x f w)" using sw xw by (simp add: AddSuccessorBlock_sound)
    then have "sound v'" by (simp add: v' sound_forBlock)
    then show ?thesis using ew by (simp add: extends_def v')
  next
    case False
    show ?thesis
    proof (cases "Type (heap v ! lb) = RETURN_STMT")
      case True
      with h lb False have "v' = ?v6\<lparr>forBlock := None\<rparr>"
        by (simp add: forExit_def Let_def)
      then show ?thesis using s6 by (simp add: extends_def sound_forBlock)
    next
      case nr: False
      with h lb False obtain f where f: "forBlock v = Some f"
        and v': "v' = (AddSuccessorBlock lb f ?v6)\<lparr>forBlock := None\<rparr>"
        by (cases "forBlock v") (simp_all add: forExit_def Let_def)
      have "f \<in> refs v" using sound_refD(3)[OF s f] .
      then have "sound (AddSuccessorBlock lb f ?v6)"
        using s6 l6 by (simp add: AddSuccessorBlock_sound)
      then have "sound v'" by (simp add: v' sound_forBlock)
      then show ?thesis by (simp add: extends_def v')
    qed
  qed
qed

lemma Visit_extends: "sound v \<Longrightarrow> Visit n v = Inr v' \<Longrightarrow> extends v v'"
proof (induction n arbitrary: v v')
  case (FuncDecl p e name body)
  from FuncDecl.prems(2) obtain list v5 where body: "body = Some list"
    and vl: "VisitList list (funcEntry p e name list v) = Inr v5"
    and v': "v' = v5\<lparr>returnBlock := None\<rparr>"
    by (auto simp: Visit_FuncDecl simp del: Visit.simps split: option.splits sum.splits)
  have e4: "extends v (funcEntry p e name list v)"
    by (rule funcEntry_sound[OF FuncDecl.prems(1)])
  have e5: "extends (funcEntry p e name list v) v5"
    by (rule VisitList_extends[OF _ extends_sound[OF e4] vl])
       (rule FuncDecl.IH[of list], simp_all add: body)
  have "extends v5 v'" unfolding v'
    using extends_sound[OF e5] by (simp add: extends_def sound_returnBlock)
  with e4 e5 show ?case by (auto simp: extends_def)
next
  case (ReturnStmt p e results)
  obtain b v1 where a1: "AddBasicBlock RETURN_STMT p v = (b, v1)" by force
  note A1 = AddBasicBlock_sound[OF ReturnStmt.prems(1) a1]
  from A1 have e1: "extends v v1" and b1: "b \<in> refs v1" by simp_all
  let ?v2 = "v1\<lparr>returnBlock := Some b\<rparr>"
  have s2: "sound ?v2" using extends_sound[OF e1] b1 by (simp add: sound_returnBlock)
  show ?case
  proof (cases "switchBlock v1")
    case None
    with ReturnStmt.prems(2) a1 have "v' = ?v2" by auto
    with s2 e1 show ?thesis by (simp add: extends_def)
  next
    case (Some sw)
    with ReturnStmt.prems(2) a1 have v': "v' = AddSuccessorBlock sw b ?v2" by auto
    have "sw \<in> refs ?v2" using sound_refD(4)[OF s2, of sw] Some by simp
    then have "sound v'" unfolding v' using s2 b1 by (intro AddSuccessorBlock_sound) simp_all
    with e1 show ?thesis by (simp add: extends_def v')
  qed
next
  case (GoStmt p e call)
  obtain b v1 where a1: "AddBasicBlock GO_STATEMENT p v = (b, v1)" by force
  from AddBasicBlock_sound[OF GoStmt.prems(1) a1] GoStmt.prems(2) a1 show ?case by auto
next
  case (IfStmt p e cond body els)
  obtain ifBlock v1 where a1: "AddBasicBlock IF_CONDITION p v = (ifBlock, v1)" by force
  from IfStmt.prems(2) a1 obtain el where els: "els = Some el"
    by (cases els) (simp_all add: Let_def)
  obtain ec v2 where a2: "AddBasicBlock ELSE_CONDITION (linePos el) v1 = (ec, v2)" by force
  obtain eb v3 where a3: "AddBasicBlock ELSE_BODY (lineEnd el) v2 = (eb, v3)" by force
  note A1 = AddBasicBlock_sound[OF IfStmt.prems(1) a1]
  from A1 have e1: "extends v v1" and i1: "ifBlock \<in> refs v1" by simp_all
  note A2 = AddBasicBlock_sound[OF extends_sound[OF e1] a2]
  from A2 have e2: "extends v1 v2" and c2: "ec \<in> refs v2" by simp_all
  note A3 = AddBasicBlock_sound[OF extends_sound[OF e2] a3]
  from A3 have e3: "extends v2 v3" and b3: "eb \<in> refs v3" by simp_all
  have i3: "ifBlock \<in> refs v3" and c3: "ec \<in> refs v3"
    using i1 c2 e2 e3 by (auto simp: extends_def)
  let ?v4 = "AddSuccessorBlock ifBlock eb v3"
  have s4: "sound ?v4" by (rule AddSuccessorBlock_sound[OF extends_sound[OF e3] i3 b3])
  from IfStmt.prems(2) a1 a2 a3 els obtain v5 where
    vl: "VisitList body ?v4 = Inr v5"
    and v': "v' = (case returnBlock v5 of None \<Rightarrow> v5
               | Some r \<Rightarrow> AddSuccessorBlock eb r (AddSuccessorBlock ec r v5))"
    by (auto simp: Let_def split: sum.splits)
  have e5: "extends ?v4 v5"
    by (rule VisitList_extends[OF _ s4 vl]) (rule IfStmt.IH(2), simp_all)
  have s5: "sound v5" using e5 by (rule extends_sound)
  have c5: "ec \<in> refs v5" and b5: "eb \<in> refs v5" using c3 b3 e5 by (auto simp: extends_def)
  have "sound v' \<and> refs v' = refs v5"
  proof (cases "returnBlock v5")
    case None
    then show ?thesis using s5 by (simp add: v')
  next
    case (Some r)
    then have r5: "r \<in> refs v5" using sound_refD(2)[OF s5] by simp
    have "sound (AddSuccessorBlock ec r v5)" by (rule AddSuccessorBlock_sound[OF s5 c5 r5])
    then have "sound (AddSuccessorBlock eb r (AddSuccessorBlock ec r v5))"
      by (rule AddSuccessorBlock_sound) (use b5 r5 in simp_all)
    then show ?thesis using Some by (simp add: v')
  qed
  with e1 e2 e3 e5 show ?case by (auto simp: extends_def)
next
  case (ForStmt p e body)
  obtain b tmp v4 where fe: "forEntry p v = (b, tmp, v4)" by (cases "forEntry p v") auto
  note F = forEntry_sound[OF ForStmt.prems(1) fe]
  from F have e4: "extends v v4" and t4: "set_option tmp \<subseteq> refs v4" by simp_all
  from ForStmt.prems(2) fe obtain v5 where vl: "VisitList body v4 = Inr v5"
    and fx: "forExit e tmp v5 = Inr v'"
    by (auto simp: Visit_ForStmt simp del: Visit.simps split: sum.splits)
  have e5: "extends v4 v5"
    by (rule VisitList_extends[OF _ extends_sound[OF e4] vl]) (rule ForStmt.IH, simp_all)
  have t5: "set_option tmp \<subseteq> refs v5" using t4 e5 by (auto simp: extends_def)
  have "extends v5 v'" by (rule forExit_sound[OF extends_sound[OF e5] t5 fx])
  with e4 e5 show ?case by (auto simp: extends_def)
next
  case (SwitchStmt p e body)
  obtain sw v1 where h: "switchHeader SWITCH_STATEMENT p v = (sw, v1)" by force
  note H = switchHeader_sound[OF SwitchStmt.prems(1) h]
  from H have e1: "extends v v1" and w1: "sw \<in> refs v1" by simp_all
  have s1: "sound v1" using e1 by (rule extends_sound)
  define v2 where "v2 = (case returnBlock v1 of None \<Rightarrow> v1 | Some r \<Rightarrow> AddSuccessorBlock sw r v1)"
  have s2: "sound v2 \<and> refs v2 = refs v1" unfolding v2_def
    using sound_refD(2)[OF s1] s1 w1
    by (cases "returnBlock v1") (simp_all add: AddSuccessorBlock_sound)
  from SwitchStmt.prems(2) h have vl: "VisitList body v2 = Inr v'"
    by (simp add: Let_def v2_def)
  have "extends v2 v'"
    by (rule VisitList_extends[OF _ _ vl]) (rule SwitchStmt.IH, simp_all add: s2)
  with e1 s2 show ?case by (auto simp: extends_def)
next
  case (TypeSwitchStmt p e body)
  obtain sw v1 where h: "switchHeader SWITCH_STATEMENT p v = (sw, v1)" by force
  from switchHeader_sound[OF TypeSwitchStmt.prems(1) h] have e1: "extends v v1" by simp
  from TypeSwitchStmt.prems(2) h have vl: "VisitList body v1 = Inr v'" by simp
  have "extends v1 v'"
    by (rule VisitList_extends[OF _ extends_sound[OF e1] vl]) (rule TypeSwitchStmt.IH, simp_all)
  with e1 show ?case by (rule extends_trans)
next
  case (SelectStmt p e body)
  obtain sw v1 where h: "switchHeader SELECT_STATEMENT p v = (sw, v1)" by force
  from switchHeader_sound[OF SelectStmt.prems(1) h] have e1: "extends v v1" by simp
  from SelectStmt.prems(2) h have vl: "VisitList body v1 = Inr v'" by simp
  have "extends v1 v'"
    by (rule VisitList_extends[OF _ extends_sound[OF e1] vl]) (rule SelectStmt.IH, simp_all)
  with e1 show ?case by (rule extends_trans)
next
  case (CaseClause p e list body)
  from CaseClause.prems(2) obtain cc v1 v2 where
    ce: "clauseEntry CASE_CLAUSE e body v = Inr (cc, v1)"
    and vl: "VisitList body v1 = Inr v2"
    and v': "v' = clauseExit cc (v2\<lparr>switchBlock := switchBlock v1, returnBlock := returnBlock v1\<rparr>)"
    by (auto split: sum.splits)
  note E = clauseEntry_sound[OF CaseClause.prems(1) ce]
  from E have e1: "extends v v1" and c1: "cc \<in> refs v1" by simp_all
  have s1: "sound v1" using e1 by (rule extends_sound)
  have e2: "extends v1 v2"
    by (rule VisitList_extends[OF _ s1 vl]) (rule CaseClause.IH(2), simp_all)
  have s2: "sound v2" using e2 by (rule extends_sound)
  have r2: "refs v1 \<subseteq> refs v2" using e2 by (simp add: extends_def)
  let ?v3 = "v2\<lparr>switchBlock := switchBlock v1, returnBlock := returnBlock v1\<rparr>"
  have "sound (v2\<lparr>switchBlock := switchBlock v1\<rparr>)"
    using s2 r2 sound_refD(4)[OF s1] by (cases "switchBlock v1") (auto simp: sound_switchBlock)
  then have s3: "sound ?v3"
    using r2 sound_refD(2)[OF s1] by (cases "returnBlock v1") (auto simp: sound_returnBlock)
  have c3: "cc \<in> refs ?v3" using c1 r2 by auto
  from clauseExit_sound[OF s3 c3] have "sound v' \<and> refs v' = refs v2" by (simp add: v')
  with e1 r2 show ?case by (auto simp: extends_def)
next
  case (CommClause p e comm body)
  from CommClause.prems(2) obtain cc v1 v2 where
    ce: "clauseEntry COMM_CLAUSE e body v = Inr (cc, v1)"
    and vl: "VisitList body v1 = Inr v2"
    and v': "v' = clauseExit cc (v2\<lparr>switchBlock := switchBlock v1, returnBlock := returnBlock v1\<rparr>)"
    by (auto split: sum.splits)
  note E = clauseEntry_sound[OF CommClause.prems(1) ce]
  from E have e1: "extends v v1" and c1: "cc \<in> refs v1" by simp_all
  have s1: "sound v1" using e1 by (rule extends_sound)
  have e2: "extends v1 v2"
    by (rule VisitList_extends[OF _ s1 vl]) (rule CommClause.IH(2), simp_all)
  have s2: "sound v2" using e2 by (rule extends_sound)
  have r2: "refs v1 \<subseteq> refs v2" using e2 by (simp add: extends_def)
  let ?v3 = "v2\<lparr>switchBlock := switchBlock v1, returnBlock := returnBlock v1\<rparr>"
  have "sound (v2\<lparr>switchBlock := switchBlock v1\<rparr>)"
    using s2 r2 sound_refD(4)[OF s1] by (cases "switchBlock v1") (auto simp: sound_switchBlock)
  then have s3: "sound ?v3"
    using r2 sound_refD(2)[OF s1] by (cases "returnBlock v1") (auto simp: sound_returnBlock)
  have c3: "cc \<in> refs ?v3" using c1 r2 by auto
  from clauseExit_sound[OF s3 c3] have "sound v' \<and> refs v' = refs v2" by (simp add: v')
  with e1 r2 show ?case by (auto simp: extends_def)
next
  case (Other p e children)
  then show ?case by (simp add: extends_refl)
qed

section \<open>The invariant through Walk\<close>

lemma walkList_extends:
  assumes IH: "\<And>n v v'. n \<in> set ns \<Longrightarrow> sound v \<Longrightarrow> Walk n v = Inr v' \<Longrightarrow> extends v v'"
  shows "sound v \<Longrightarrow> walkList ns v = Inr v' \<Longrightarrow> extends v v'"
  using IH
proof (induction ns arbitrary: v)
  case Nil
  then show ?case by (simp add: extends_refl)
next
  case (Cons n ns)
  from Cons.prems(2) obtain v1 where 1: "Walk n v = Inr v1" and 2: "walkList ns v1 = Inr v'"
    by (auto split: sum.splits)
  have e1: "extends v v1" using Cons.prems(3)[OF _ Cons.prems(1) 1] by simp
  have e2: "extends v1 v'"
    by (rule Cons.IH[OF extends_sound[OF e1] 2]) (rule Cons.prems(3), simp_all)
  show ?case using e1 e2 by (rule extends_trans)
qed

lemma Walk_extends: "sound v \<Longrightarrow> Walk n v = Inr v' \<Longrightarrow> extends v v'"
proof (induction n arbitrary: v v')
  case (ReturnStmt p e results)
  from ReturnStmt.prems(2) obtain v1 where 1: "Visit (ReturnStmt p e results) v = Inr v1"
    and 2: "walkList results v1 = Inr v'"
    by (auto simp del: Visit.simps split: sum.splits)
  have e1: "extends v v1" by (rule Visit_extends[OF ReturnStmt.prems(1) 1])
  have "extends v1 v'"
    by (rule walkList_extends[OF _ extends_sound[OF e1] 2]) (rule ReturnStmt.IH, simp_all)
  with e1 show ?case by (rule extends_trans)
next
  case (GoStmt p e call)
  from GoStmt.prems(2) obtain v1 where 1: "Visit (GoStmt p e call) v = Inr v1"
    and 2: "walkList call v1 = Inr v'"
    by (auto simp del: Visit.simps split: sum.splits)
  have e1: "extends v v1" by (rule Visit_extends[OF GoStmt.prems(1) 1])
  have "extends v1 v'"
    by (rule walkList_extends[OF _ extends_sound[OF e1] 2]) (rule GoStmt.IH, simp_all)
  with e1 show ?case by (rule extends_trans)
next
  case (IfStmt p e cond body els)
  from IfStmt.prems(2) obtain v1 v2 v3 where 1: "Visit (IfStmt p e cond body els) v = Inr v1"
    and 2: "walkList cond v1 = Inr v2" and 3: "walkList body v2 = Inr v3"
    and 4: "(case els of None \<Rightarrow> Inr v3 | Some el \<Rightarrow> Walk el v3) = Inr v'"
    by (auto simp del: Visit.simps split: sum.splits)
  have e1: "extends v v1" by (rule Visit_extends[OF IfStmt.prems(1) 1])
  have e2: "extends v1 v2"
    by (rule walkList_extends[OF _ extends_sound[OF e1] 2]) (rule IfStmt.IH(1), simp_all)
  have e3: "extends v2 v3"
    by (rule walkList_extends[OF _ extends_sound[OF e2] 3]) (rule IfStmt.IH(2), simp_all)
  have e4: "extends v3 v'"
  proof (cases els)
    case None
    with 4 show ?thesis using extends_refl[OF extends_sound[OF e3]] by simp
  next
    case (Some el)
    with 4 have "Walk el v3 = Inr v'" by simp
    then show ?thesis using IfStmt.IH(3)[of el v3 v'] Some extends_sound[OF e3] by simp
  qed
  from e1 e2 e3 e4 show ?case by (blast intro: extends_trans)
next
  case (CaseClause p e list body)
  from CaseClause.prems(2) obtain v1 v2 where 1: "Visit (CaseClause p e list body) v = Inr v1"
    and 2: "walkList list v1 = Inr v2" and 3: "walkList body v2 = Inr v'"
    by (auto simp del: Visit.simps split: sum.splits)
  have e1: "extends v v1" by (rule Visit_extends[OF CaseClause.prems(1) 1])
  have e2: "extends v1 v2"
    by (rule walkList_extends[OF _ extends_sound[OF e1] 2]) (rule CaseClause.IH(1), simp_all)
  have e3: "extends v2 v'"
    by (rule walkList_extends[OF _ extends_sound[OF e2] 3]) (rule CaseClause.IH(2), simp_all)
  from e1 e2 e3 show ?case by (blast intro: extends_trans)
next
  case (CommClause p e comm body)
  from CommClause.prems(2) obtain v1 v2 where 1: "Visit (CommClause p e comm body) v = Inr v1"
    and 2: "walkList comm v1 = Inr v2" and 3: "walkList body v2 = Inr v'"
    by (auto simp del: Visit.simps split: sum.splits)
  have e1: "extends v v1" by (rule Visit_extends[OF CommClause.prems(1) 1])
  have e2: "extends v1 v2"
    by (rule walkList_extends[OF _ extends_sound[OF e1] 2]) (rule CommClause.IH(1), simp_all)
  have e3: "extends v2 v'"
    by (rule walkList_extends[OF _ extends_sound[OF e2] 3]) (rule CommClause.IH(2), simp_all)
  from e1 e2 e3 show ?case by (blast intro: extends_trans)
next
  case (Other p e children)
  from Other.prems(2) have 2: "walkList children v = Inr v'" by simp
  show ?case
    by (rule walkList_extends[OF _ Other.prems(1) 2]) (rule Other.IH, simp_all)
qed (simp_all del: Visit.simps add: Visit_extends)

lemma Walk_sound: "Walk file newVisitor = Inr v \<Longrightarrow> sound v"
  using Walk_extends[OF sound_newVisitor] by (auto simp: extends_def)

section \<open>GetBasicBlocks: the numbering\<close>

lemma numberBlocks_length: "length (snd (numberBlocks m keys i h)) = length h"
  by (induction keys arbitrary: i h) (auto simp: split_beta split: option.splits)

lemma numberBlocks_refs:
  "set keys \<subseteq> fst ` set m \<Longrightarrow>
   fst (numberBlocks m keys i h) = map (\<lambda>k. the (map_of m k)) keys"
proof (induction keys arbitrary: i h)
  case Nil
  then show ?case by simp
next
  case (Cons k keys)
  then obtain bb where bb: "map_of m k = Some bb"
    by (cases "map_of m k") (auto simp: map_of_eq_None_iff)
  with Cons show ?case by (auto simp: split_beta)
qed

lemma numberBlocks_same:
  "a < length h \<Longrightarrow>
   snd (numberBlocks m keys i h) ! a = (h ! a)\<lparr>Number := Number (snd (numberBlocks m keys i h) ! a)\<rparr>"
proof (induction keys arbitrary: i h)
  case Nil
  then show ?case by simp
next
  case (Cons k keys)
  show ?case
  proof (cases "map_of m k")
    case None
    then show ?thesis using Cons by simp
  next
    case (Some bb)
    let ?h1 = "h[bb := (h ! bb)\<lparr>Number := i\<rparr>]"
    let ?r = "snd (numberBlocks m keys (i + 1) ?h1)"
    have "?r ! a = (?h1 ! a)\<lparr>Number := Number (?r ! a)\<rparr>"
      using Cons.IH[of ?h1 "i + 1"] Cons.prems by simp
    also have "\<dots> = (h ! a)\<lparr>Number := Number (?r ! a)\<rparr>"
      using Cons.prems by (cases "a = bb") simp_all
    finally show ?thesis using Some by (simp add: split_beta)
  qed
qed

lemma numberBlocks_untouched:
  "set keys \<subseteq> fst ` set m \<Longrightarrow> a \<notin> (\<lambda>k. the (map_of m k)) ` set keys \<Longrightarrow>
   snd (numberBlocks m keys i h) ! a = h ! a"
proof (induction keys arbitrary: i h)
  case Nil
  then show ?case by simp
next
  case (Cons k keys)
  then obtain bb where bb: "map_of m k = Some bb"
    by (cases "map_of m k") (auto simp: map_of_eq_None_iff)
  with Cons.prems have ne: "a \<noteq> bb" by auto
  have "snd (numberBlocks m keys (i + 1) (h[bb := (h ! bb)\<lparr>Number := i\<rparr>])) ! a
        = (h[bb := (h ! bb)\<lparr>Number := i\<rparr>]) ! a"
    using Cons.prems by (intro Cons.IH) auto
  then show ?case using bb ne by (simp add: split_beta)
qed

lemma numberBlocks_number:
  "set keys \<subseteq> fst ` set m \<Longrightarrow> distinct (map (\<lambda>k. the (map_of m k)) keys) \<Longrightarrow>
   \<forall>k \<in> set keys. the (map_of m k) < length h \<Longrightarrow> j < length keys \<Longrightarrow>
   Number (snd (numberBlocks m keys i h) ! (the (map_of m (keys ! j)))) = i + int j"
proof (induction keys arbitrary: i h j)
  case Nil
  then show ?case by simp
next
  case (Cons k keys)
  then obtain bb where bb: "map_of m k = Some bb"
    by (cases "map_of m k") (auto simp: map_of_eq_None_iff)
  let ?h1 = "h[bb := (h ! bb)\<lparr>Number := i\<rparr>]"
  have sub: "set keys \<subseteq> fst ` set m" using Cons.prems(1) by simp
  show ?case
  proof (cases j)
    case 0
    have "bb \<notin> (\<lambda>k. the (map_of m k)) ` set keys" using Cons.prems(2) bb by auto
    from numberBlocks_untouched[OF sub this]
    have "snd (numberBlocks m keys (i + 1) ?h1) ! bb = ?h1 ! bb" .
    moreover have "bb < length h" using Cons.prems(3) bb by simp
    ultimately show ?thesis using bb 0 by (simp add: split_beta)
  next
    case (Suc j')
    have "Number (snd (numberBlocks m keys (i + 1) ?h1) ! (the (map_of m (keys ! j'))))
          = (i + 1) + int j'"
      using Cons.prems Suc by (intro Cons.IH[OF sub]) auto
    then show ?thesis using bb Suc by (simp add: split_beta)
  qed
qed

lemma registry_inj:
  assumes d1: "distinct (map fst m)" and d2: "distinct (map snd m)"
  shows "inj_on (\<lambda>k. the (map_of m k)) (fst ` set m)"
proof (rule inj_onI)
  fix k1 k2 assume k1: "k1 \<in> fst ` set m" and k2: "k2 \<in> fst ` set m"
    and eq: "the (map_of m k1) = the (map_of m k2)"
  from k1 obtain a1 where m1: "(k1, a1) \<in> set m" by auto
  from k2 obtain a2 where m2: "(k2, a2) \<in> set m" by auto
  from eq m1 m2 d1 have "a1 = a2" by simp
  moreover have "inj_on snd (set m)" using d2 by (simp add: distinct_map)
  ultimately have "(k1, a1) = (k2, a2)" using m1 m2 by (intro inj_onD[of snd "set m"]) simp_all
  then show "k1 = k2" by simp
qed

lemma GetBasicBlocks_facts:
  assumes ro: "registry_ok v" and g: "GetBasicBlocks v = (bs, v')"
  shows "bs = map (\<lambda>k. the (map_of (basicBlocks v) k)) (sort (map fst (basicBlocks v)))"
    and "v' = v\<lparr>heap := heap v'\<rparr>"
    and "length (heap v') = length (heap v)"
    and "\<And>a. a < length (heap v) \<Longrightarrow> heap v' ! a = (heap v ! a)\<lparr>Number := Number (heap v' ! a)\<rparr>"
    and "set bs = refs v" and "distinct bs" and "length bs = length (basicBlocks v)"
proof -
  let ?m = "basicBlocks v"
  let ?keys = "sort (map fst ?m)"
  have sub: "set ?keys \<subseteq> fst ` set ?m" by simp
  from g have bs: "bs = fst (numberBlocks ?m ?keys 0 (heap v))"
    and h': "heap v' = snd (numberBlocks ?m ?keys 0 (heap v))"
    and v': "v' = v\<lparr>heap := snd (numberBlocks ?m ?keys 0 (heap v))\<rparr>"
    by (auto simp: GetBasicBlocks_def Let_def split_beta)
  show 1: "bs = map (\<lambda>k. the (map_of ?m k)) ?keys"
    unfolding bs by (rule numberBlocks_refs[OF sub])
  show "v' = v\<lparr>heap := heap v'\<rparr>" using v' by simp
  show "length (heap v') = length (heap v)" by (simp add: h' numberBlocks_length)
  show "\<And>a. a < length (heap v) \<Longrightarrow> heap v' ! a = (heap v ! a)\<lparr>Number := Number (heap v' ! a)\<rparr>"
    unfolding h' by (rule numberBlocks_same)
  have d1: "distinct (map fst ?m)" and d2: "distinct (map snd ?m)"
    using ro by (simp_all add: registry_ok_def)
  have "set bs = (\<lambda>k. the (map_of ?m k)) ` fst ` set ?m" by (simp add: 1)
  also have "\<dots> = snd ` set ?m"
    using d1 by (force simp: image_iff)
  finally show "set bs = refs v" by (simp add: refs_def)
  have "inj_on (\<lambda>k. the (map_of ?m k)) (set ?keys)"
    using registry_inj[OF d1 d2] by simp
  then show "distinct bs" using d1 by (simp add: 1 distinct_map)
  show "length bs = length ?m" by (simp add: 1)
qed

text \<open>
  C5. On a registry as \<^verbatim>\<open>AddBasicBlock\<close> builds it, \<^verbatim>\<open>GetBasicBlocks\<close> returns as many
  blocks as the registry holds; the numbers of the returned blocks are \<open>0, 1, ..., N-1\<close> in
  the order of the sequence; their end lines are the sorted keys of the registry, strictly
  increasing; so the number is strictly increasing with the end line.
\<close>

theorem GetBasicBlocks_numbering:
  assumes ro: "registry_ok v" and g: "GetBasicBlocks v = (bs, v')"
  shows "length bs = length (basicBlocks v)
         \<and> map (\<lambda>b. Number (heap v' ! b)) bs = map int [0 ..< length bs]
         \<and> map (\<lambda>b. EndLine (heap v' ! b)) bs = sort (map fst (basicBlocks v))
         \<and> sorted_wrt (<) (map (\<lambda>b. EndLine (heap v' ! b)) bs)
         \<and> (\<forall>i j. i < j \<and> j < length bs \<longrightarrow>
               Number (heap v' ! (bs ! i)) < Number (heap v' ! (bs ! j))
               \<and> EndLine (heap v' ! (bs ! i)) < EndLine (heap v' ! (bs ! j)))"
proof -
  let ?m = "basicBlocks v"
  let ?keys = "sort (map fst ?m)"
  note F = GetBasicBlocks_facts[OF ro g]
  have d1: "distinct (map fst ?m)" and d2: "distinct (map snd ?m)"
    using ro by (simp_all add: registry_ok_def)
  have len: "length bs = length ?keys" by (simp add: F(1))
  have nth: "bs ! j = the (map_of ?m (?keys ! j))" if "j < length bs" for j
    using that by (simp add: F(1))
  have reg: "the (map_of ?m k) < length (heap v) \<and> EndLine (heap v ! the (map_of ?m k)) = k"
    if "k \<in> set ?keys" for k
  proof -
    from that obtain a where "(k, a) \<in> set ?m" by auto
    with d1 registry_okD[OF ro this] show ?thesis by simp
  qed
  have h': "heap v' = snd (numberBlocks ?m ?keys 0 (heap v))"
    using g by (auto simp: GetBasicBlocks_def Let_def split_beta)
  have inj: "inj_on (\<lambda>k. the (map_of ?m k)) (set ?keys)"
    using registry_inj[OF d1 d2] by simp
  have dk: "distinct (map (\<lambda>k. the (map_of ?m k)) ?keys)"
    using inj d1 by (simp add: distinct_map)
  have num: "Number (heap v' ! (bs ! j)) = int j" if "j < length bs" for j
  proof -
    have "Number (snd (numberBlocks ?m ?keys 0 (heap v)) ! (the (map_of ?m (?keys ! j)))) = 0 + int j"
      using that len reg by (intro numberBlocks_number dk) auto
    then show ?thesis using that by (simp add: h' nth)
  qed
  have el: "EndLine (heap v' ! (bs ! j)) = ?keys ! j" if "j < length bs" for j
  proof -
    have k: "?keys ! j \<in> set ?keys" using that len by (intro nth_mem) simp
    from reg[OF k] have lt: "bs ! j < length (heap v)"
      and e: "EndLine (heap v ! (bs ! j)) = ?keys ! j" using that by (simp_all add: nth)
    have "EndLine (heap v' ! (bs ! j)) = EndLine (heap v ! (bs ! j))"
      by (subst F(4)[OF lt]) simp
    with e show ?thesis by simp
  qed
  have 1: "map (\<lambda>b. Number (heap v' ! b)) bs = map int [0 ..< length bs]"
    by (rule nth_equalityI) (simp_all add: num)
  have 2: "map (\<lambda>b. EndLine (heap v' ! b)) bs = ?keys"
    by (rule nth_equalityI) (simp_all add: el len)
  have 3: "sorted_wrt (<) ?keys" using d1 by (simp add: strict_sorted_iff)
  have 4: "Number (heap v' ! (bs ! i)) < Number (heap v' ! (bs ! j))
           \<and> EndLine (heap v' ! (bs ! i)) < EndLine (heap v' ! (bs ! j))"
    if "i < j" "j < length bs" for i j
  proof -
    have "?keys ! i < ?keys ! j" using that len 3 by (simp add: sorted_wrt_nth_less)
    then show ?thesis using that by (simp add: num el)
  qed
  show ?thesis using F(7) 1 2 3 4 by simp
qed

text \<open>The theorem at the registry with blocks at lines 5 and 2, added in this order.\<close>

theorem GetBasicBlocks_numbering_witness:
  "registry_ok visitorTwoBlocks
   \<and> fst (GetBasicBlocks visitorTwoBlocks) = [1, 0]
   \<and> map (\<lambda>b. Number (heap (snd (GetBasicBlocks visitorTwoBlocks)) ! b)) [1, 0] = [0, 1]
   \<and> map (\<lambda>b. EndLine (heap (snd (GetBasicBlocks visitorTwoBlocks)) ! b)) [1, 0] = [2, 5]"
proof -
  have h1: "registry_ok visitorTwoBlocks"
    by (simp add: registry_ok_def visitorTwoBlocks_def NewBasicBlock_def)
  have h2: "GetBasicBlocks visitorTwoBlocks =
      ([1, 0], visitorTwoBlocks\<lparr>heap := [(NewBasicBlock (- 1) RETURN_STMT 5)\<lparr>Number := 1\<rparr>,
                                         (NewBasicBlock (- 1) GO_STATEMENT 2)\<lparr>Number := 0\<rparr>]\<rparr>)"
    by (simp add: GetBasicBlocks_def visitorTwoBlocks_def NewBasicBlock_def)
  show ?thesis
    using GetBasicBlocks_numbering [OF h1 h2] h1 h2
    by (simp add: visitorTwoBlocks_def upt_rec)
qed

section \<open>The last loop of GetBasicBlocksFromSourceCode\<close>

lemma sequentialEdge_fields [simp]:
  "basicBlocks (sequentialEdge bs i w) = basicBlocks w"
  "length (heap (sequentialEdge bs i w)) = length (heap w)"
  "refs (sequentialEdge bs i w) = refs w"
  by (simp_all add: sequentialEdge_def)

lemma sequentialEdge_other:
  "a \<noteq> bs ! i \<Longrightarrow> heap (sequentialEdge bs i w) ! a = heap w ! a"
  by (simp add: sequentialEdge_def AddSuccessorBlock_def)

lemma sequentialEdge_self:
  "bs ! i < length (heap w) \<Longrightarrow>
   heap (sequentialEdge bs i w) ! (bs ! i) =
     (if i + 1 < length bs \<and> sequential (Type (heap w ! (bs ! i)))
      then (heap w ! (bs ! i))
             \<lparr>successor := AList.update (EndLine (heap w ! (bs ! (i + 1)))) (bs ! (i + 1))
                             (successor (heap w ! (bs ! i))),
              LastSuccessor := Some (bs ! (i + 1))\<rparr>
      else heap w ! (bs ! i))"
  by (simp add: sequentialEdge_def AddSuccessorBlock_def)

lemma sequentialEdges_upto:
  assumes d: "distinct bs" and r: "\<forall>b \<in> set bs. b < length (heap v)" and k: "k \<le> length bs"
  shows "length (heap (fold (sequentialEdge bs) [0 ..< k] v)) = length (heap v)
         \<and> (\<forall>a. a \<notin> (\<lambda>i. bs ! i) ` {..< k} \<longrightarrow>
               heap (fold (sequentialEdge bs) [0 ..< k] v) ! a = heap v ! a)
         \<and> (\<forall>i < k. heap (fold (sequentialEdge bs) [0 ..< k] v) ! (bs ! i)
                       = heap (sequentialEdge bs i v) ! (bs ! i))"
  using k
proof (induction k)
  case 0
  then show ?case by simp
next
  case (Suc k)
  let ?w = "fold (sequentialEdge bs) [0 ..< k] v"
  let ?w' = "sequentialEdge bs k ?w"
  from Suc have IH: "length (heap ?w) = length (heap v)"
    "\<And>a. a \<notin> (\<lambda>i. bs ! i) ` {..< k} \<Longrightarrow> heap ?w ! a = heap v ! a"
    "\<And>i. i < k \<Longrightarrow> heap ?w ! (bs ! i) = heap (sequentialEdge bs i v) ! (bs ! i)"
    by simp_all
  have kl: "k < length bs" using Suc.prems by simp
  have fold: "fold (sequentialEdge bs) [0 ..< Suc k] v = ?w'" by simp
  have notin: "bs ! j \<notin> (\<lambda>i. bs ! i) ` {..< k}" if "k \<le> j" "j < length bs" for j
    using that d by (auto simp: nth_eq_iff_index_eq)
  have lt: "bs ! j < length (heap v)" if "j < length bs" for j
    using that r by simp
  have 1: "length (heap ?w') = length (heap v)" using IH(1) by simp
  have 2: "heap ?w' ! a = heap v ! a" if "a \<notin> (\<lambda>i. bs ! i) ` {..< Suc k}" for a
  proof -
    from that have "a \<noteq> bs ! k" and "a \<notin> (\<lambda>i. bs ! i) ` {..< k}" by auto
    then show ?thesis using IH(2) by (simp add: sequentialEdge_other)
  qed
  have 3: "heap ?w' ! (bs ! i) = heap (sequentialEdge bs i v) ! (bs ! i)" if "i < Suc k" for i
  proof (cases "i = k")
    case True
    have a: "heap ?w ! (bs ! k) = heap v ! (bs ! k)" using notin[of k] kl IH(2) by simp
    have b: "heap ?w ! (bs ! (k + 1)) = heap v ! (bs ! (k + 1))" if "k + 1 < length bs"
      using notin[of "k + 1"] that IH(2) by simp
    show ?thesis
      using lt[OF kl] IH(1) a b
      by (simp add: True sequentialEdge_self)
  next
    case False
    with that have ik: "i < k" by simp
    then have "bs ! i \<noteq> bs ! k" using d kl by (simp add: nth_eq_iff_index_eq)
    then show ?thesis using IH(3)[OF ik] by (simp add: sequentialEdge_other)
  qed
  show ?case unfolding fold using 1 2 3 by blast
qed

lemma sequentialEdges_nth:
  assumes d: "distinct bs" and r: "\<forall>b \<in> set bs. b < length (heap v)" and i: "i < length bs"
  shows "heap (sequentialEdges bs v) ! (bs ! i) =
     (if i + 1 < length bs \<and> sequential (Type (heap v ! (bs ! i)))
      then (heap v ! (bs ! i))
             \<lparr>successor := AList.update (EndLine (heap v ! (bs ! (i + 1)))) (bs ! (i + 1))
                             (successor (heap v ! (bs ! i))),
              LastSuccessor := Some (bs ! (i + 1))\<rparr>
      else heap v ! (bs ! i))"
proof -
  from sequentialEdges_upto[OF d r order_refl] i
  have "heap (sequentialEdges bs v) ! (bs ! i) = heap (sequentialEdge bs i v) ! (bs ! i)"
    by (simp add: sequentialEdges_def)
  also have "\<dots> = (if i + 1 < length bs \<and> sequential (Type (heap v ! (bs ! i)))
      then (heap v ! (bs ! i))
             \<lparr>successor := AList.update (EndLine (heap v ! (bs ! (i + 1)))) (bs ! (i + 1))
                             (successor (heap v ! (bs ! i))),
              LastSuccessor := Some (bs ! (i + 1))\<rparr>
      else heap v ! (bs ! i))"
    using r i by (intro sequentialEdge_self) simp
  finally show ?thesis .
qed

lemma sequentialEdge_sound:
  assumes s: "sound w" and sub: "set bs \<subseteq> refs w"
  shows "sound (sequentialEdge bs i w)"
proof (cases "sequential (Type (heap w ! (bs ! i))) \<and> i + 1 < length bs")
  case True
  then have "bs ! i \<in> refs w" "bs ! (i + 1) \<in> refs w" using sub by auto
  then have "sound (AddSuccessorBlock (bs ! i) (bs ! (i + 1)) w)"
    using s by (simp add: AddSuccessorBlock_sound)
  then show ?thesis using True by (simp add: sequentialEdge_def)
next
  case False
  then show ?thesis using s by (auto simp: sequentialEdge_def)
qed

lemma fold_sequentialEdge_sound:
  "sound w \<Longrightarrow> set bs \<subseteq> refs w \<Longrightarrow>
   sound (fold (sequentialEdge bs) is w) \<and> refs (fold (sequentialEdge bs) is w) = refs w"
proof (induction "is" arbitrary: w)
  case Nil
  then show ?case by simp
next
  case (Cons i "is")
  have "sound (sequentialEdge bs i w)" using Cons.prems by (rule sequentialEdge_sound)
  with Cons.IH[of "sequentialEdge bs i w"] Cons.prems show ?case by simp
qed

lemma sequentialEdges_sound:
  "sound w \<Longrightarrow> set bs \<subseteq> refs w \<Longrightarrow>
   sound (sequentialEdges bs w) \<and> refs (sequentialEdges bs w) = refs w"
  unfolding sequentialEdges_def by (rule fold_sequentialEdge_sound)

text \<open>
  The last loop, run on the sequence that \<^verbatim>\<open>GetBasicBlocks\<close> returns, leaves every
  block as it was, except that a block which is not the last one and whose kind is none of
  the six gets the next block of the sequence as a successor.
\<close>

lemma sequentialEdges_GetBasicBlocks:
  assumes ro: "registry_ok v" and g: "GetBasicBlocks v = (bs, v1)" and i: "i < length bs"
  shows "heap (sequentialEdges bs v1) ! (bs ! i) =
     (if i + 1 < length bs
         \<and> Type (heap v1 ! (bs ! i)) \<notin> {FOR_BODY, ELSE_CONDITION, ELSE_BODY, COMM_CLAUSE,
                                         CASE_CLAUSE, RETURN_STMT}
      then (heap v1 ! (bs ! i))
             \<lparr>successor := AList.update (EndLine (heap v1 ! (bs ! (i + 1)))) (bs ! (i + 1))
                             (successor (heap v1 ! (bs ! i))),
              LastSuccessor := Some (bs ! (i + 1))\<rparr>
      else heap v1 ! (bs ! i))"
proof -
  note F = GetBasicBlocks_facts[OF ro g]
  have r: "\<forall>b \<in> set bs. b < length (heap v1)"
    using F(3) F(5) refs_lt[OF ro] by simp
  show ?thesis
    unfolding sequentialEdges_nth[OF F(6) r i] by (simp add: sequential_def)
qed

text \<open>
  Every run of \<^verbatim>\<open>GetBasicBlocksFromSourceCode\<close> that returns is a walk that ends in a
  visitor with a well-formed registry, then \<^verbatim>\<open>GetBasicBlocks\<close>, then the last loop: the
  result is the sequence of \<^verbatim>\<open>GetBasicBlocks\<close> with the store after the last loop.
\<close>

lemma GetBasicBlocksFromSourceCode_Inr:
  assumes "Walk file newVisitor = Inr v" and "GetBasicBlocks v = (bs, v1)"
  shows "registry_ok v
         \<and> GetBasicBlocksFromSourceCode (Inr file) = Inr (bs, heap (sequentialEdges bs v1))"
  using Walk_sound[OF assms(1)] assms
  by (simp add: GetBasicBlocksFromSourceCode_def sound_def)

text \<open>
  C3. Let the walk over the file end in the visitor \<open>v\<close>, and let \<^verbatim>\<open>GetBasicBlocks\<close>
  give the sequence \<open>bs\<close> (in ascending order of end line, see C5) and the visitor \<open>v1\<close>,
  whose store holds the blocks as they are before the last loop. Then
  \<^verbatim>\<open>GetBasicBlocksFromSourceCode\<close> returns \<open>bs\<close> with a store \<open>h\<close> in which every block of
  the sequence is as it was before the last loop, except that a block which is not the last
  one and whose kind is none of \<^verbatim>\<open>FOR_BODY\<close>, \<^verbatim>\<open>ELSE_CONDITION\<close>, \<^verbatim>\<open>ELSE_BODY\<close>,
  \<^verbatim>\<open>COMM_CLAUSE\<close>, \<^verbatim>\<open>CASE_CLAUSE\<close>, \<^verbatim>\<open>RETURN_STMT\<close> has the next block of the sequence
  as a successor (under the next block's end line) and as last successor. So a block of one
  of the six kinds, a \<^verbatim>\<open>RETURN_STMT\<close> block in particular, and the last block get no edge
  in this loop, and every other block gets exactly the edge to the block that follows it.
\<close>

theorem final_pass_edges:
  assumes w: "Walk file newVisitor = Inr v" and g: "GetBasicBlocks v = (bs, v1)"
  shows "\<exists>h. GetBasicBlocksFromSourceCode (Inr file) = Inr (bs, h)
     \<and> (\<forall>i < length bs. h ! (bs ! i) =
          (if i + 1 < length bs
              \<and> Type (heap v1 ! (bs ! i)) \<notin> {FOR_BODY, ELSE_CONDITION, ELSE_BODY, COMM_CLAUSE,
                                              CASE_CLAUSE, RETURN_STMT}
           then (heap v1 ! (bs ! i))
                  \<lparr>successor := AList.update (EndLine (heap v1 ! (bs ! (i + 1)))) (bs ! (i + 1))
                                  (successor (heap v1 ! (bs ! i))),
                   LastSuccessor := Some (bs ! (i + 1))\<rparr>
           else heap v1 ! (bs ! i)))"
proof -
  from GetBasicBlocksFromSourceCode_Inr[OF w g]
  have ro: "registry_ok v"
    and r: "GetBasicBlocksFromSourceCode (Inr file) = Inr (bs, heap (sequentialEdges bs v1))"
    by simp_all
  show ?thesis
    using r sequentialEdges_GetBasicBlocks[OF ro g] by blast
qed

text \<open>
  The theorem at the file \<^verbatim>\<open>package p / func f() { / go g() / return / }\<close> (lines 1 to
  5). The sequence is the function's entry block (reference 0, line 2), the go statement's
  block (reference 2, line 3) and the return block (reference 1, line 4): the first two
  get the edge to the block that follows them, the return block gets none.
\<close>

theorem final_pass_edges_witness:
  "Walk fileGoReturn newVisitor = Inr visitorGoReturn
   \<and> GetBasicBlocks visitorGoReturn = ([0, 2, 1], visitorGoReturnNumbered)
   \<and> (\<exists>h. GetBasicBlocksFromSourceCode (Inr fileGoReturn) = Inr ([0, 2, 1], h)
        \<and> h ! 0 = \<lparr>Number = 0, Type = FUNCTION_ENTRY, EndLine = 2, LastSuccessor = Some 2,
                    successor = [(3, 2)], FunctionName = ''f''\<rparr>
        \<and> h ! 2 = \<lparr>Number = 1, Type = GO_STATEMENT, EndLine = 3, LastSuccessor = Some 1,
                    successor = [(4, 1)], FunctionName = ''''\<rparr>
        \<and> h ! 1 = \<lparr>Number = 2, Type = RETURN_STMT, EndLine = 4, LastSuccessor = None,
                    successor = [], FunctionName = ''''\<rparr>)"
proof -
  have h1: "Walk fileGoReturn newVisitor = Inr visitorGoReturn"
    by (simp add: fileGoReturn_def visitorGoReturn_def run_defs)
  have h2: "GetBasicBlocks visitorGoReturn = ([0, 2, 1], visitorGoReturnNumbered)"
    by (simp add: visitorGoReturn_def visitorGoReturnNumbered_def GetBasicBlocks_def)
  from final_pass_edges [OF h1 h2] obtain h where
    r: "GetBasicBlocksFromSourceCode (Inr fileGoReturn) = Inr ([0, 2, 1], h)"
    and e: "\<And>i. i < length [0, 2, 1 :: nat] \<Longrightarrow> h ! ([0, 2, 1] ! i) =
          (if i + 1 < length [0, 2, 1 :: nat]
              \<and> Type (heap visitorGoReturnNumbered ! ([0, 2, 1] ! i))
                  \<notin> {FOR_BODY, ELSE_CONDITION, ELSE_BODY, COMM_CLAUSE, CASE_CLAUSE, RETURN_STMT}
           then (heap visitorGoReturnNumbered ! ([0, 2, 1] ! i))
                  \<lparr>successor := AList.update
                      (EndLine (heap visitorGoReturnNumbered ! ([0, 2, 1] ! (i + 1))))
                      ([0, 2, 1] ! (i + 1))
                      (successor (heap visitorGoReturnNumbered ! ([0, 2, 1] ! i))),
                   LastSuccessor := Some ([0, 2, 1] ! (i + 1))\<rparr>
           else heap visitorGoReturnNumbered ! ([0, 2, 1] ! i))"
    by blast
  have e0: "h ! 0 = \<lparr>Number = 0, Type = FUNCTION_ENTRY, EndLine = 2, LastSuccessor = Some 2,
                    successor = [(3, 2)], FunctionName = ''f''\<rparr>"
    using e[of 0] by (simp add: visitorGoReturnNumbered_def)
  have e1: "h ! 2 = \<lparr>Number = 1, Type = GO_STATEMENT, EndLine = 3, LastSuccessor = Some 1,
                    successor = [(4, 1)], FunctionName = ''''\<rparr>"
    using e[of 1] by (simp add: visitorGoReturnNumbered_def)
  have e2: "h ! 1 = \<lparr>Number = 2, Type = RETURN_STMT, EndLine = 4, LastSuccessor = None,
                    successor = [], FunctionName = ''''\<rparr>"
    using e[of 2] by (simp add: visitorGoReturnNumbered_def)
  show ?thesis using h1 h2 r e0 e1 e2 by blast
qed

lemma sound_heap_numbers:
  assumes s: "sound v" and l: "length h = length (heap v)"
    and e: "\<And>a. a < length (heap v) \<Longrightarrow> h ! a = (heap v ! a)\<lparr>Number := Number (h ! a)\<rparr>"
  shows "sound (v\<lparr>heap := h\<rparr>)"
proof -
  let ?v = "v\<lparr>heap := h\<rparr>"
  have ro: "registry_ok v" and cl: "closed v" using s by (simp_all add: sound_def)
  have E: "EndLine (h ! a) = EndLine (heap v ! a)" if "a < length (heap v)" for a
    by (subst e[OF that]) simp
  have S: "successor (h ! a) = successor (heap v ! a)" if "a < length (heap v)" for a
    by (subst e[OF that]) simp
  have reg: "registry_ok ?v"
  proof (rule registry_okI)
    show "distinct (map fst (basicBlocks ?v))" using ro by (simp add: registry_ok_def)
    show "distinct (map snd (basicBlocks ?v))" using ro by (simp add: registry_ok_def)
    fix k a assume "(k, a) \<in> set (basicBlocks ?v)"
    then have "(k, a) \<in> set (basicBlocks v)" by simp
    from registry_okD[OF ro this] E[of a] l
    show "a < length (heap ?v) \<and> EndLine (heap ?v ! a) = k" by simp
  qed
  have cl': "closed ?v"
  proof (rule closedI)
    fix a k y assume a: "a \<in> refs ?v" and ks: "(k, y) \<in> set (successor (heap ?v ! a))"
    from a have ar: "a \<in> refs v" by simp
    from refs_lt[OF ro ar] S[of a] ks have "(k, y) \<in> set (successor (heap v ! a))" by simp
    from closed_succD[OF cl ar this] show "y \<in> refs ?v" by simp
  next
    show "set_option (lastBlock ?v) \<subseteq> refs ?v" using cl by (simp add: closed_def)
    show "set_option (returnBlock ?v) \<subseteq> refs ?v" using cl by (simp add: closed_def)
    show "set_option (forBlock ?v) \<subseteq> refs ?v" using cl by (simp add: closed_def)
    show "set_option (switchBlock ?v) \<subseteq> refs ?v" using cl by (simp add: closed_def)
  qed
  show ?thesis using reg cl' by (simp add: sound_def)
qed

lemma GetBasicBlocks_sound:
  assumes s: "sound v" and g: "GetBasicBlocks v = (bs, v1)"
  shows "sound v1 \<and> refs v1 = refs v \<and> set bs = refs v"
proof -
  have ro: "registry_ok v" using s by (simp add: sound_def)
  note F = GetBasicBlocks_facts[OF ro g]
  have "sound (v\<lparr>heap := heap v1\<rparr>)"
    by (rule sound_heap_numbers[OF s F(3) F(4)])
  then have "sound v1" using F(2) by simp
  moreover have "refs v1 = refs v" by (subst F(2)) simp
  ultimately show ?thesis using F(5) by simp
qed

lemma set_GetSuccessorBlocks: "set (GetSuccessorBlocks b) \<subseteq> snd ` set (successor b)"
proof
  fix x assume "x \<in> set (GetSuccessorBlocks b)"
  then obtain k where "map_of (successor b) k = Some x"
    by (auto simp: GetSuccessorBlocks_def List.map_filter_def)
  then have "(k, x) \<in> set (successor b)" by (rule map_of_SomeD)
  then show "x \<in> snd ` set (successor b)" by force
qed

text \<open>
  C9. In the sequence and store that \<^verbatim>\<open>GetBasicBlocksFromSourceCode\<close> returns, every
  entry of every returned block's successor map points to a block of the sequence, and so
  does every block that \<^verbatim>\<open>GetSuccessorBlocks\<close> lists.
\<close>

theorem no_dangling_edges:
  assumes "GetBasicBlocksFromSourceCode (Inr file) = Inr (bs, h)"
  shows "\<forall>b \<in> set bs. (\<forall>(k, s) \<in> set (successor (h ! b)). s \<in> set bs)
                      \<and> set (GetSuccessorBlocks (h ! b)) \<subseteq> set bs"
proof -
  from assms obtain v v1 where w: "Walk file newVisitor = Inr v"
    and g: "GetBasicBlocks v = (bs, v1)" and h: "h = heap (sequentialEdges bs v1)"
    by (auto simp: GetBasicBlocksFromSourceCode_def Let_def split: sum.splits prod.splits)
  have s: "sound v" using w by (rule Walk_sound)
  from GetBasicBlocks_sound[OF s g] have s1: "sound v1" and r1: "set bs = refs v1" by simp_all
  from sequentialEdges_sound[OF s1] r1
  have s2: "sound (sequentialEdges bs v1)" and r2: "refs (sequentialEdges bs v1) = set bs"
    by simp_all
  have cl: "closed (sequentialEdges bs v1)" using s2 by (simp add: sound_def)
  have 1: "s \<in> set bs" if "b \<in> set bs" "(k, s) \<in> set (successor (h ! b))" for b k s
    using closed_succD[OF cl, of b k s] that by (simp add: r2 h)
  have 2: "set (GetSuccessorBlocks (h ! b)) \<subseteq> set bs" if "b \<in> set bs" for b
    using set_GetSuccessorBlocks[of "h ! b"] 1[OF that] by auto
  show ?thesis using 1 2 by blast
qed

text \<open>
  The theorem at the file \<^verbatim>\<open>package p / func f() { / for { / / } / }\<close> (lines 1 to 6):
  four blocks, and the successors of the \<^verbatim>\<open>FOR_STATEMENT\<close> block (reference 2) are
  blocks of the sequence.
\<close>

theorem no_dangling_edges_witness:
  "GetBasicBlocksFromSourceCode
     (Inr (Other 1 6 [Other 1 1 [], FuncDecl 2 6 ''f'' (Some [ForStmt 3 5 []])]))
   = Inr ([0, 2, 3, 1],
      [\<lparr>Number = 0, Type = FUNCTION_ENTRY, EndLine = 2,
          LastSuccessor = Some 2, successor = [(3, 2)], FunctionName = ''f''\<rparr>,
       \<lparr>Number = 3, Type = RETURN_STMT, EndLine = 6, LastSuccessor = None,
          successor = [], FunctionName = []\<rparr>,
       \<lparr>Number = 1, Type = FOR_STATEMENT, EndLine = 3,
          LastSuccessor = Some 3, successor = [(6, 1), (5, 3)], FunctionName = []\<rparr>,
       \<lparr>Number = 2, Type = FOR_BODY, EndLine = 5, LastSuccessor = Some 2,
          successor = [(3, 2)], FunctionName = []\<rparr>])
   \<and> set (GetSuccessorBlocks
         \<lparr>Number = 1, Type = FOR_STATEMENT, EndLine = 3,
          LastSuccessor = Some 3, successor = [(6, 1), (5, 3)], FunctionName = []\<rparr>)
       \<subseteq> set [0, 2, 3, 1]"
proof -
  have run: "GetBasicBlocksFromSourceCode
     (Inr (Other 1 6 [Other 1 1 [], FuncDecl 2 6 ''f'' (Some [ForStmt 3 5 []])]))
   = Inr ([0, 2, 3, 1],
      [\<lparr>Number = 0, Type = FUNCTION_ENTRY, EndLine = 2,
          LastSuccessor = Some 2, successor = [(3, 2)], FunctionName = ''f''\<rparr>,
       \<lparr>Number = 3, Type = RETURN_STMT, EndLine = 6, LastSuccessor = None,
          successor = [], FunctionName = []\<rparr>,
       \<lparr>Number = 1, Type = FOR_STATEMENT, EndLine = 3,
          LastSuccessor = Some 3, successor = [(6, 1), (5, 3)], FunctionName = []\<rparr>,
       \<lparr>Number = 2, Type = FOR_BODY, EndLine = 5, LastSuccessor = Some 2,
          successor = [(3, 2)], FunctionName = []\<rparr>])"
    by (simp add: run_defs upt_rec)
  show ?thesis
    using no_dangling_edges [OF run] run by simp
qed

section \<open>The block of a case or communication clause\<close>









section \<open>Files without statements\<close>

lemma Walk_plain: "plain n \<Longrightarrow> Walk n v = Inr v"
  and walkList_plain: "plainList ns \<Longrightarrow> walkList ns v = Inr v"
  by (induction n and ns arbitrary: v and v rule: plain_plainList.induct) simp_all

lemma GetBasicBlocks_newVisitor: "GetBasicBlocks newVisitor = ([], newVisitor)"
  by (simp add: GetBasicBlocks_def newVisitor_def)

text \<open>
  C10, as stated: the file \<open>fileVarFuncLit\<close> has no function declaration, and a block is
  returned for the return statement of its function literal.
\<close>

theorem no_function_declaration_counterexample:
  "\<not> hasFuncDecl fileVarFuncLit
   \<and> GetBasicBlocksFromSourceCode (Inr fileVarFuncLit)
       = Inr ([0], [\<lparr>Number = 0, Type = RETURN_STMT, EndLine = 3, LastSuccessor = None,
                      successor = [], FunctionName = ''''\<rparr>])"
  by (simp add: fileVarFuncLit_def run_defs)

text \<open>
  C10, amended: a file whose tree holds none of the nodes that \<^verbatim>\<open>Visit\<close> handles gives the
  empty sequence and no error.
\<close>

theorem plain_file_no_blocks:
  assumes "plain file"
  shows "GetBasicBlocksFromSourceCode (Inr file) = Inr ([], [])"
proof -
  have "Walk file newVisitor = Inr newVisitor" using assms by (rule Walk_plain)
  then show ?thesis
    by (simp add: GetBasicBlocksFromSourceCode_def GetBasicBlocks_newVisitor sequentialEdges_def)
       (simp add: newVisitor_def)
qed

text \<open>The theorem at a file with a package clause, an import, a type and a variable.\<close>

theorem plain_file_no_blocks_witness:
  "plain fileDeclsOnly \<and> GetBasicBlocksFromSourceCode (Inr fileDeclsOnly) = Inr ([], [])"
proof -
  have h: "plain fileDeclsOnly" by (simp add: fileDeclsOnly_def)
  show ?thesis using plain_file_no_blocks [OF h] h by simp
qed

section \<open>The back-references on exit from a node\<close>

lemma AddBasicBlock_snd_fields [simp]:
  "returnBlock (snd (AddBasicBlock t l v)) = returnBlock v"
  "forBlock (snd (AddBasicBlock t l v)) = forBlock v"
  "switchBlock (snd (AddBasicBlock t l v)) = switchBlock v"
  "forBodyBlock (snd (AddBasicBlock t l v)) = forBodyBlock v"
  "lastBlock (snd (AddBasicBlock t l v)) = Some (fst (AddBasicBlock t l v))"
  by (simp_all add: AddBasicBlock_def Let_def split: option.splits)

lemma scanReturns_fields [simp]:
  "forBodyBlock (scanReturns ns v) = forBodyBlock v"
  "switchBlock (scanReturns ns v) = switchBlock v"
  "forBlock (scanReturns ns v) = forBlock v"
  by (induction ns v rule: scanReturns.induct) (simp_all add: split_beta)

lemma funcEntry_fields [simp]:
  "forBodyBlock (funcEntry p e name list v) = forBodyBlock v"
  by (simp add: funcEntry_def Let_def split_beta)

lemma ifEntry_fields:
  "ifEntry p el v = (i, ec, eb, v4) \<Longrightarrow> forBodyBlock v4 = forBodyBlock v"
  by (auto simp: ifEntry_def Let_def split_beta)

lemma ifExit_fields [simp]:
  "forBodyBlock (ifExit ec eb v) = forBodyBlock v"
  by (simp add: ifExit_def split: option.splits)

lemma forExit_fields:
  assumes "forExit e tmp v = Inr v'"
  shows "forBodyBlock v' = forBodyBlock v \<and> returnBlock v' = tmp \<and> forBlock v' = None"
  using assms
  by (auto simp: forExit_def Let_def split: option.splits if_splits)

lemma switchHeader_fields:
  "switchHeader t l v = (sw, v1) \<Longrightarrow>
     forBodyBlock v1 = forBodyBlock v \<and> switchBlock v1 = Some sw
     \<and> sw = fst (AddBasicBlock t l v) \<and> returnBlock v1 = returnBlock v"
  by (auto simp: switchHeader_def Let_def split_beta split: option.splits)

lemma clauseBlock_fields:
  "clauseBlock g e body v = Inr (cc, v1) \<Longrightarrow>
     forBodyBlock v1 = forBodyBlock v \<and> returnBlock v1 = returnBlock v
     \<and> switchBlock v1 = switchBlock v \<and> forBlock v1 = forBlock v"
  using clauseBlock_Add[of g e body v cc v1] AddBasicBlock_fields by blast

lemma clauseEntry_fields:
  assumes "clauseEntry g e body v = Inr (cc, v4)"
  shows "forBodyBlock v4 = forBodyBlock v \<and> returnBlock v4 = returnBlock v
         \<and> switchBlock v4 = switchBlock v"
proof -
  from assms obtain v1 where cb: "clauseBlock g e body v = Inr (cc, v1)"
    by (auto simp: clauseEntry_def Let_def split: sum.splits)
  have "forBodyBlock v4 = forBodyBlock v1 \<and> returnBlock v4 = returnBlock v1
         \<and> switchBlock v4 = switchBlock v1"
    using assms cb
    by (cases "forBlock v1"; cases "switchBlock v1"; cases "returnBlock v1")
       (auto simp: clauseEntry_def Let_def)
  with clauseBlock_fields[OF cb] show ?thesis by simp
qed

lemma clauseExit_fields [simp]:
  "forBodyBlock (clauseExit cc v) = forBodyBlock v"
  "returnBlock (clauseExit cc v) = returnBlock v"
  "switchBlock (clauseExit cc v) = switchBlock v"
  by (simp_all add: clauseExit_def split: option.splits)

lemma Visit_ForStmt_exit:
  assumes "Visit (ForStmt p e body) v = Inr v'"
  shows "returnBlock v' = returnBlock v \<and> forBlock v' = None"
proof -
  obtain b tmp v4 where fe: "forEntry p v = (b, tmp, v4)" by (cases "forEntry p v") auto
  from assms fe obtain v5 where fx: "forExit e tmp v5 = Inr v'"
    by (auto simp: Visit_ForStmt simp del: Visit.simps split: sum.splits)
  from forEntry_fields[OF fe] forExit_fields[OF fx] show ?thesis by simp
qed

lemma Visit_CaseClause_exit:
  assumes "Visit (CaseClause p e l body) v = Inr v'"
  shows "returnBlock v' = returnBlock v \<and> switchBlock v' = switchBlock v"
proof -
  from assms obtain cc v1 v2 where
    ce: "clauseEntry CASE_CLAUSE e body v = Inr (cc, v1)"
    and v': "v' = clauseExit cc (v2\<lparr>switchBlock := switchBlock v1, returnBlock := returnBlock v1\<rparr>)"
    by (auto split: sum.splits)
  from clauseEntry_fields[OF ce] show ?thesis by (simp add: v')
qed

lemma Visit_CommClause_exit:
  assumes "Visit (CommClause p e l body) v = Inr v'"
  shows "returnBlock v' = returnBlock v \<and> switchBlock v' = switchBlock v"
proof -
  from assms obtain cc v1 v2 where
    ce: "clauseEntry COMM_CLAUSE e body v = Inr (cc, v1)"
    and v': "v' = clauseExit cc (v2\<lparr>switchBlock := switchBlock v1, returnBlock := returnBlock v1\<rparr>)"
    by (auto split: sum.splits)
  from clauseEntry_fields[OF ce] show ?thesis by (simp add: v')
qed

lemma VisitList_clauses:
  "list_all isClause ns \<Longrightarrow> VisitList ns v = Inr v' \<Longrightarrow>
   switchBlock v' = switchBlock v \<and> returnBlock v' = returnBlock v"
proof (induction ns arbitrary: v)
  case Nil
  then show ?case by simp
next
  case (Cons n ns)
  from Cons.prems(2) obtain v1 where 1: "Visit n v = Inr v1" and 2: "VisitList ns v1 = Inr v'"
    by (auto split: sum.splits)
  have "isClause n" using Cons.prems(1) by simp
  then have "returnBlock v1 = returnBlock v \<and> switchBlock v1 = switchBlock v"
    using 1 Visit_CaseClause_exit Visit_CommClause_exit by (cases n) (simp_all del: Visit.simps)
  moreover have "switchBlock v' = switchBlock v1 \<and> returnBlock v' = returnBlock v1"
    using Cons.IH[OF _ 2] Cons.prems(1) by simp
  ultimately show ?case by simp
qed

text \<open>
  The switch, type switch and select statements have no temporary for the switch block,
  unlike the clauses: after the statement the switch block is still the statement's header.
  A return statement visited later links that header to its own block, also from another
  function: at the end of the walk over \<open>fileSwitchThenReturn\<close> the header of the switch
  of \<^verbatim>\<open>f\<close> (reference 2, line 3) has the return block of \<^verbatim>\<open>g\<close> (reference 5, line 8)
  among its successors. Likewise a for statement ends with \<^verbatim>\<open>forBlock\<close> nil instead of
  the value of its entry (see C7).
\<close>

lemma Visit_switch_exit:
  assumes "list_all isClause body"
  shows "Visit (SwitchStmt p e body) v = Inr v' \<Longrightarrow>
           switchBlock v' = Some (fst (AddBasicBlock SWITCH_STATEMENT p v))"
    and "Visit (TypeSwitchStmt p e body) v = Inr v' \<Longrightarrow>
           switchBlock v' = Some (fst (AddBasicBlock SWITCH_STATEMENT p v))"
    and "Visit (SelectStmt p e body) v = Inr v' \<Longrightarrow>
           switchBlock v' = Some (fst (AddBasicBlock SELECT_STATEMENT p v))"
proof -
  {
    assume a: "Visit (SwitchStmt p e body) v = Inr v'"
    obtain sw v1 where h: "switchHeader SWITCH_STATEMENT p v = (sw, v1)" by force
    let ?v2 = "case returnBlock v1 of None \<Rightarrow> v1 | Some r \<Rightarrow> AddSuccessorBlock sw r v1"
    from a h have vl: "VisitList body ?v2 = Inr v'" by (simp add: Let_def)
    have "switchBlock ?v2 = Some sw" using switchHeader_fields[OF h] by (simp split: option.splits)
    with VisitList_clauses[OF assms vl] switchHeader_fields[OF h]
    show "switchBlock v' = Some (fst (AddBasicBlock SWITCH_STATEMENT p v))" by simp
  }
  {
    assume a: "Visit (TypeSwitchStmt p e body) v = Inr v'"
    obtain sw v1 where h: "switchHeader SWITCH_STATEMENT p v = (sw, v1)" by force
    from a h have vl: "VisitList body v1 = Inr v'" by simp
    with VisitList_clauses[OF assms vl] switchHeader_fields[OF h]
    show "switchBlock v' = Some (fst (AddBasicBlock SWITCH_STATEMENT p v))" by simp
  }
  {
    assume a: "Visit (SelectStmt p e body) v = Inr v'"
    obtain sw v1 where h: "switchHeader SELECT_STATEMENT p v = (sw, v1)" by force
    from a h have vl: "VisitList body v1 = Inr v'" by simp
    with VisitList_clauses[OF assms vl] switchHeader_fields[OF h]
    show "switchBlock v' = Some (fst (AddBasicBlock SELECT_STATEMENT p v))" by simp
  }
qed

lemma switch_header_left_bound_example:
  "map_sum id
     (\<lambda>v. (Type (heap v ! 2), successor (heap v ! 2),
           map (\<lambda>b. (EndLine (heap v ! b), Type (heap v ! b), FunctionName (heap v ! b)))
             [0, 4, 5]))
     (Walk fileSwitchThenReturn newVisitor)
   = Inr (SWITCH_STATEMENT, [(6, 1), (4, 3), (8, 5)],
          [(2, FUNCTION_ENTRY, ''f''), (7, FUNCTION_ENTRY, ''g''), (8, RETURN_STMT, '''')])"
  by code_simp

lemma VisitList_forBodyBlock:
  assumes IH: "\<And>n v v'. n \<in> set ns \<Longrightarrow> Visit n v = Inr v' \<Longrightarrow> forBodyBlock v' = forBodyBlock v"
  shows "VisitList ns v = Inr v' \<Longrightarrow> forBodyBlock v' = forBodyBlock v"
  using IH
proof (induction ns arbitrary: v)
  case Nil
  then show ?case by simp
next
  case (Cons n ns)
  from Cons.prems(1) obtain v1 where 1: "Visit n v = Inr v1" and 2: "VisitList ns v1 = Inr v'"
    by (auto split: sum.splits)
  have "forBodyBlock v1 = forBodyBlock v" using Cons.prems(2)[OF _ 1] by simp
  moreover have "forBodyBlock v' = forBodyBlock v1"
    by (rule Cons.IH[OF 2]) (rule Cons.prems(2), simp_all)
  ultimately show ?case by simp
qed

lemma Visit_forBodyBlock: "Visit n v = Inr v' \<Longrightarrow> forBodyBlock v' = forBodyBlock v"
proof (induction n arbitrary: v v')
  case (FuncDecl p e name body)
  from FuncDecl.prems obtain list v5 where body: "body = Some list"
    and vl: "VisitList list (funcEntry p e name list v) = Inr v5"
    and v': "v' = v5\<lparr>returnBlock := None\<rparr>"
    by (auto simp: Visit_FuncDecl simp del: Visit.simps split: option.splits sum.splits)
  have "forBodyBlock v5 = forBodyBlock (funcEntry p e name list v)"
    by (rule VisitList_forBodyBlock[OF _ vl]) (rule FuncDecl.IH[of list], simp_all add: body)
  then show ?case by (simp add: v')
next
  case (ReturnStmt p e results)
  then show ?case by (auto simp: Let_def split_beta split: option.splits)
next
  case (GoStmt p e call)
  then show ?case by auto
next
  case (IfStmt p e cond body els)
  from IfStmt.prems obtain el i ec eb v4 v5 where "els = Some el"
    and ie: "ifEntry p el v = (i, ec, eb, v4)"
    and vl: "VisitList body v4 = Inr v5" and v': "v' = ifExit ec eb v5"
    by (auto simp: Visit_IfStmt simp del: Visit.simps split: option.splits sum.splits prod.splits)
  have "forBodyBlock v5 = forBodyBlock v4"
    by (rule VisitList_forBodyBlock[OF _ vl]) (rule IfStmt.IH(2), simp_all)
  with ifEntry_fields[OF ie] show ?case by (simp add: v')
next
  case (ForStmt p e body)
  obtain b tmp v4 where fe: "forEntry p v = (b, tmp, v4)" by (cases "forEntry p v") auto
  from ForStmt.prems fe obtain v5 where vl: "VisitList body v4 = Inr v5"
    and fx: "forExit e tmp v5 = Inr v'"
    by (auto simp: Visit_ForStmt simp del: Visit.simps split: sum.splits)
  have "forBodyBlock v5 = forBodyBlock v4"
    by (rule VisitList_forBodyBlock[OF _ vl]) (rule ForStmt.IH, simp_all)
  with forEntry_fields[OF fe] forExit_fields[OF fx] show ?case by simp
next
  case (SwitchStmt p e body)
  obtain sw v1 where h: "switchHeader SWITCH_STATEMENT p v = (sw, v1)" by force
  let ?v2 = "case returnBlock v1 of None \<Rightarrow> v1 | Some r \<Rightarrow> AddSuccessorBlock sw r v1"
  from SwitchStmt.prems h have vl: "VisitList body ?v2 = Inr v'" by (simp add: Let_def)
  have "forBodyBlock v' = forBodyBlock ?v2"
    by (rule VisitList_forBodyBlock[OF _ vl]) (rule SwitchStmt.IH, simp_all)
  with switchHeader_fields[OF h] show ?case by (simp split: option.splits)
next
  case (TypeSwitchStmt p e body)
  obtain sw v1 where h: "switchHeader SWITCH_STATEMENT p v = (sw, v1)" by force
  from TypeSwitchStmt.prems h have vl: "VisitList body v1 = Inr v'" by simp
  have "forBodyBlock v' = forBodyBlock v1"
    by (rule VisitList_forBodyBlock[OF _ vl]) (rule TypeSwitchStmt.IH, simp_all)
  with switchHeader_fields[OF h] show ?case by simp
next
  case (SelectStmt p e body)
  obtain sw v1 where h: "switchHeader SELECT_STATEMENT p v = (sw, v1)" by force
  from SelectStmt.prems h have vl: "VisitList body v1 = Inr v'" by simp
  have "forBodyBlock v' = forBodyBlock v1"
    by (rule VisitList_forBodyBlock[OF _ vl]) (rule SelectStmt.IH, simp_all)
  with switchHeader_fields[OF h] show ?case by simp
next
  case (CaseClause p e list body)
  from CaseClause.prems obtain cc v1 v2 where
    ce: "clauseEntry CASE_CLAUSE e body v = Inr (cc, v1)"
    and vl: "VisitList body v1 = Inr v2"
    and v': "v' = clauseExit cc (v2\<lparr>switchBlock := switchBlock v1, returnBlock := returnBlock v1\<rparr>)"
    by (auto split: sum.splits)
  have "forBodyBlock v2 = forBodyBlock v1"
    by (rule VisitList_forBodyBlock[OF _ vl]) (rule CaseClause.IH(2), simp_all)
  with clauseEntry_fields[OF ce] show ?case by (simp add: v')
next
  case (CommClause p e comm body)
  from CommClause.prems obtain cc v1 v2 where
    ce: "clauseEntry COMM_CLAUSE e body v = Inr (cc, v1)"
    and vl: "VisitList body v1 = Inr v2"
    and v': "v' = clauseExit cc (v2\<lparr>switchBlock := switchBlock v1, returnBlock := returnBlock v1\<rparr>)"
    by (auto split: sum.splits)
  have "forBodyBlock v2 = forBodyBlock v1"
    by (rule VisitList_forBodyBlock[OF _ vl]) (rule CommClause.IH(2), simp_all)
  with clauseEntry_fields[OF ce] show ?case by (simp add: v')
next
  case (Other p e children)
  then show ?case by simp
qed

lemma Visit_FuncDecl_exit:
  "Visit (FuncDecl p e name b) v = Inr v' \<Longrightarrow> returnBlock v' = None"
  by (auto simp: Visit_FuncDecl simp del: Visit.simps split: option.splits sum.splits)

lemma Visit_ReturnStmt_exit:
  "Visit (ReturnStmt p e l) v = Inr v' \<Longrightarrow>
     returnBlock v' = Some (fst (AddBasicBlock RETURN_STMT p v))"
  by (auto simp: Let_def split_beta split: option.splits)

lemma Visit_switch_returnBlock:
  assumes "list_all isClause body"
  shows "Visit (SwitchStmt p e body) v = Inr v' \<Longrightarrow> returnBlock v' = returnBlock v"
    and "Visit (TypeSwitchStmt p e body) v = Inr v' \<Longrightarrow> returnBlock v' = returnBlock v"
    and "Visit (SelectStmt p e body) v = Inr v' \<Longrightarrow> returnBlock v' = returnBlock v"
proof -
  {
    assume a: "Visit (SwitchStmt p e body) v = Inr v'"
    obtain sw v1 where h: "switchHeader SWITCH_STATEMENT p v = (sw, v1)" by force
    let ?v2 = "case returnBlock v1 of None \<Rightarrow> v1 | Some r \<Rightarrow> AddSuccessorBlock sw r v1"
    from a h have vl: "VisitList body ?v2 = Inr v'" by (simp add: Let_def)
    have "returnBlock ?v2 = returnBlock v1" by (simp split: option.splits)
    with VisitList_clauses[OF assms vl] switchHeader_fields[OF h]
    show "returnBlock v' = returnBlock v" by simp
  }
  {
    assume a: "Visit (TypeSwitchStmt p e body) v = Inr v'"
    obtain sw v1 where h: "switchHeader SWITCH_STATEMENT p v = (sw, v1)" by force
    from a h have vl: "VisitList body v1 = Inr v'" by simp
    with VisitList_clauses[OF assms vl] switchHeader_fields[OF h]
    show "returnBlock v' = returnBlock v" by simp
  }
  {
    assume a: "Visit (SelectStmt p e body) v = Inr v'"
    obtain sw v1 where h: "switchHeader SELECT_STATEMENT p v = (sw, v1)" by force
    from a h have vl: "VisitList body v1 = Inr v'" by simp
    with VisitList_clauses[OF assms vl] switchHeader_fields[OF h]
    show "returnBlock v' = returnBlock v" by simp
  }
qed

text \<open>
  C4, as stated: a return statement rebinds the return block and does not restore it.
  The statement is visited inside a function whose return block is the block of reference
  1; on exit the return block is the statement's own block, of reference 2.
\<close>

theorem back_references_counterexample:
  "returnBlock visitorInFunc = Some 1
   \<and> map_sum id returnBlock (Visit (ReturnStmt 6 6 []) visitorInFunc) = Inr (Some 2)"
  by (simp add: run_defs visitorInFunc_def)

text \<open>
  C4, amended. The return block and the switch block are restored where the code brackets
  a body with a temporary: on exit from a for statement the return block is the one of the
  entry; on exit from a case or communication clause the return block and the switch block
  are those of the entry; hence on exit from a switch, type switch or select statement,
  whose body holds clauses, the return block is the one of the entry. A return statement
  and a function declaration do not restore: after a return statement the return block is
  the statement's block, and on exit from a function declaration the return block is nil.
  \<^verbatim>\<open>forBodyBlock\<close> is never bound.
\<close>

theorem back_references_on_exit:
  "(Visit (ForStmt p e body) v = Inr v' \<longrightarrow> returnBlock v' = returnBlock v)
   \<and> (Visit (CaseClause p e l body) v = Inr v' \<longrightarrow>
         returnBlock v' = returnBlock v \<and> switchBlock v' = switchBlock v)
   \<and> (Visit (CommClause p e l body) v = Inr v' \<longrightarrow>
         returnBlock v' = returnBlock v \<and> switchBlock v' = switchBlock v)
   \<and> (Visit (FuncDecl p e name b) v = Inr v' \<longrightarrow> returnBlock v' = None)
   \<and> (Visit (ReturnStmt p e l) v = Inr v' \<longrightarrow>
         returnBlock v' = Some (fst (AddBasicBlock RETURN_STMT p v)))
   \<and> (list_all isClause body \<and> Visit (SwitchStmt p e body) v = Inr v' \<longrightarrow>
         returnBlock v' = returnBlock v)
   \<and> (list_all isClause body \<and> Visit (TypeSwitchStmt p e body) v = Inr v' \<longrightarrow>
         returnBlock v' = returnBlock v)
   \<and> (list_all isClause body \<and> Visit (SelectStmt p e body) v = Inr v' \<longrightarrow>
         returnBlock v' = returnBlock v)
   \<and> (Visit n v = Inr v' \<longrightarrow> forBodyBlock v' = forBodyBlock v)"
  using Visit_ForStmt_exit[of p e body v v'] Visit_CaseClause_exit[of p e l body v v']
    Visit_CommClause_exit[of p e l body v v'] Visit_FuncDecl_exit[of p e name b v v']
    Visit_ReturnStmt_exit[of p e l v v'] Visit_switch_returnBlock[of body p e v v']
    Visit_forBodyBlock[of n v v']
  by (simp del: Visit.simps)

text \<open>
  The theorem at a for statement, at a case clause and a communication clause whose body
  is a return statement, at a return statement and at the three switch statements with one
  clause whose body is a return statement, all inside a function (return block 1); at a
  function declaration with an empty body; and at a go statement.
\<close>

theorem back_references_on_exit_witness:
  "\<not> isl (Visit (ForStmt 3 5 []) visitorInFunc)
   \<and> returnBlock (projr (Visit (ForStmt 3 5 []) visitorInFunc)) = Some 1
   \<and> \<not> isl (Visit (CaseClause 4 6 [] [ReturnStmt 6 6 []]) visitorInFunc)
   \<and> returnBlock (projr (Visit (CaseClause 4 6 [] [ReturnStmt 6 6 []]) visitorInFunc)) = Some 1
   \<and> \<not> isl (Visit (CommClause 4 6 [] [ReturnStmt 6 6 []]) visitorInFunc)
   \<and> returnBlock (projr (Visit (CommClause 4 6 [] [ReturnStmt 6 6 []]) visitorInFunc)) = Some 1
   \<and> \<not> isl (Visit (FuncDecl 2 9 ''f'' (Some [])) newVisitor)
   \<and> returnBlock (projr (Visit (FuncDecl 2 9 ''f'' (Some [])) newVisitor)) = None
   \<and> \<not> isl (Visit (ReturnStmt 6 6 []) visitorInFunc)
   \<and> returnBlock (projr (Visit (ReturnStmt 6 6 []) visitorInFunc)) = Some 2
   \<and> list_all isClause [CaseClause 4 6 [] [ReturnStmt 6 6 []]]
   \<and> \<not> isl (Visit (SwitchStmt 3 7 [CaseClause 4 6 [] [ReturnStmt 6 6 []]]) visitorInFunc)
   \<and> returnBlock (projr (Visit (SwitchStmt 3 7 [CaseClause 4 6 [] [ReturnStmt 6 6 []]])
                            visitorInFunc)) = Some 1
   \<and> \<not> isl (Visit (TypeSwitchStmt 3 7 [CaseClause 4 6 [] [ReturnStmt 6 6 []]]) visitorInFunc)
   \<and> returnBlock (projr (Visit (TypeSwitchStmt 3 7 [CaseClause 4 6 [] [ReturnStmt 6 6 []]])
                            visitorInFunc)) = Some 1
   \<and> list_all isClause [CommClause 4 6 [] [ReturnStmt 6 6 []]]
   \<and> \<not> isl (Visit (SelectStmt 3 7 [CommClause 4 6 [] [ReturnStmt 6 6 []]]) visitorInFunc)
   \<and> returnBlock (projr (Visit (SelectStmt 3 7 [CommClause 4 6 [] [ReturnStmt 6 6 []]])
                            visitorInFunc)) = Some 1
   \<and> \<not> isl (Visit (GoStmt 3 3 []) visitorInFunc)
   \<and> forBodyBlock (projr (Visit (GoStmt 3 3 []) visitorInFunc)) = forBodyBlock visitorInFunc"
proof -
  have ok: "\<not> isl r \<Longrightarrow> r = Inr (projr r)" for r :: "error + visitor"
    by (cases r) simp_all
  have r1: "\<not> isl (Visit (ForStmt 3 5 []) visitorInFunc)"
    and r2: "\<not> isl (Visit (CaseClause 4 6 [] [ReturnStmt 6 6 []]) visitorInFunc)"
    and r3: "\<not> isl (Visit (CommClause 4 6 [] [ReturnStmt 6 6 []]) visitorInFunc)"
    and r4: "\<not> isl (Visit (FuncDecl 2 9 ''f'' (Some [])) newVisitor)"
    and r5: "\<not> isl (Visit (ReturnStmt 6 6 []) visitorInFunc)"
    and r9: "\<not> isl (Visit (GoStmt 3 3 []) visitorInFunc)"
    by (simp_all add: run_defs visitorInFunc_def)
  have r6: "\<not> isl (Visit (SwitchStmt 3 7 [CaseClause 4 6 [] [ReturnStmt 6 6 []]]) visitorInFunc)"
    by code_simp
  have r7: "\<not> isl (Visit (TypeSwitchStmt 3 7 [CaseClause 4 6 [] [ReturnStmt 6 6 []]])
                    visitorInFunc)"
    by code_simp
  have r8: "\<not> isl (Visit (SelectStmt 3 7 [CommClause 4 6 [] [ReturnStmt 6 6 []]]) visitorInFunc)"
    by code_simp
  have a: "fst (AddBasicBlock t 6 visitorInFunc) = 2" "fst (AddBasicBlock t 3 visitorInFunc) = 2"
    for t by (simp_all add: AddBasicBlock_def visitorInFunc_def)
  have b: "returnBlock visitorInFunc = Some 1" by (simp add: visitorInFunc_def)
  have c1: "list_all isClause [CaseClause 4 6 [] [ReturnStmt 6 6 []]]"
    and c2: "list_all isClause [CommClause 4 6 [] [ReturnStmt 6 6 []]]" by simp_all
  note T = back_references_on_exit
  from T [of 3 5 "[]" visitorInFunc _ _ "''f''" None "Other 1 1 []", THEN conjunct1, rule_format, OF ok[OF r1]]
  have w1: "returnBlock (projr (Visit (ForStmt 3 5 []) visitorInFunc)) = Some 1"
    by (simp add: b)
  from T [of 4 6 "[ReturnStmt 6 6 []]" visitorInFunc _ "[]" "''f''" None "Other 1 1 []",
          THEN conjunct2, THEN conjunct1, rule_format, OF ok[OF r2]]
  have w2: "returnBlock (projr (Visit (CaseClause 4 6 [] [ReturnStmt 6 6 []]) visitorInFunc)) = Some 1"
    by (simp add: b)
  from T [of 4 6 "[ReturnStmt 6 6 []]" visitorInFunc _ "[]" "''f''" None "Other 1 1 []",
          THEN conjunct2, THEN conjunct2, THEN conjunct1, rule_format, OF ok[OF r3]]
  have w3: "returnBlock (projr (Visit (CommClause 4 6 [] [ReturnStmt 6 6 []]) visitorInFunc)) = Some 1"
    by (simp add: b)
  from T [of 2 9 "[]" newVisitor _ "[]" "''f''" "Some []" "Other 1 1 []",
          THEN conjunct2, THEN conjunct2, THEN conjunct2, THEN conjunct1, rule_format, OF ok[OF r4]]
  have w4: "returnBlock (projr (Visit (FuncDecl 2 9 ''f'' (Some [])) newVisitor)) = None" .
  from T [of 6 6 "[]" visitorInFunc _ "[]" "''f''" None "Other 1 1 []",
          THEN conjunct2, THEN conjunct2, THEN conjunct2, THEN conjunct2, THEN conjunct1,
          rule_format, OF ok[OF r5]]
  have w5: "returnBlock (projr (Visit (ReturnStmt 6 6 []) visitorInFunc)) = Some 2"
    by (simp add: a)
  from T [of 3 7 "[CaseClause 4 6 [] [ReturnStmt 6 6 []]]" visitorInFunc _ "[]" "''f''" None
            "Other 1 1 []",
          THEN conjunct2, THEN conjunct2, THEN conjunct2, THEN conjunct2, THEN conjunct2,
          THEN conjunct1, rule_format, OF conjI [OF c1 ok[OF r6]]]
  have w6: "returnBlock (projr (Visit (SwitchStmt 3 7 [CaseClause 4 6 [] [ReturnStmt 6 6 []]])
                                  visitorInFunc)) = Some 1"
    by (simp only: b)
  from T [of 3 7 "[CaseClause 4 6 [] [ReturnStmt 6 6 []]]" visitorInFunc _ "[]" "''f''" None
            "Other 1 1 []",
          THEN conjunct2, THEN conjunct2, THEN conjunct2, THEN conjunct2, THEN conjunct2,
          THEN conjunct2, THEN conjunct1, rule_format, OF conjI [OF c1 ok[OF r7]]]
  have w7: "returnBlock (projr (Visit (TypeSwitchStmt 3 7 [CaseClause 4 6 [] [ReturnStmt 6 6 []]])
                                  visitorInFunc)) = Some 1"
    by (simp only: b)
  from T [of 3 7 "[CommClause 4 6 [] [ReturnStmt 6 6 []]]" visitorInFunc _ "[]" "''f''" None
            "Other 1 1 []",
          THEN conjunct2, THEN conjunct2, THEN conjunct2, THEN conjunct2, THEN conjunct2,
          THEN conjunct2, THEN conjunct2, THEN conjunct1, rule_format, OF conjI [OF c2 ok[OF r8]]]
  have w8: "returnBlock (projr (Visit (SelectStmt 3 7 [CommClause 4 6 [] [ReturnStmt 6 6 []]])
                                  visitorInFunc)) = Some 1"
    by (simp only: b)
  from T [of 3 3 "[]" visitorInFunc _ "[]" "''f''" None "GoStmt 3 3 []",
          THEN conjunct2, THEN conjunct2, THEN conjunct2, THEN conjunct2, THEN conjunct2,
          THEN conjunct2, THEN conjunct2, THEN conjunct2, rule_format, OF ok[OF r9]]
  have w9: "forBodyBlock (projr (Visit (GoStmt 3 3 []) visitorInFunc)) = forBodyBlock visitorInFunc" .
  show ?thesis
    using r1 r2 r3 r4 r5 r6 r7 r8 r9 w1 w2 w3 w4 w5 w6 w7 w8 w9 c1 c2 by blast
qed

end
